theory Spec2Isabelle
  imports Complex_Main "HOL-Library.Sublist"
begin

section \<open>Python strings and values\<close>

text \<open>
  The two programs of the repository, \<^verbatim>\<open>src/main.py\<close> (class \<^verbatim>\<open>ImprovedSearch\<close>) and
  \<^verbatim>\<open>src/app.py\<close> (class \<^verbatim>\<open>AppleSearch\<close>), are embedded side by side. Definitions taken
  from \<^verbatim>\<open>main.py\<close> carry the prefix \<open>main_\<close>, those from \<^verbatim>\<open>app.py\<close> the prefix \<open>app_\<close>,
  since both files use the same method names.

  Strings are \<^typ>\<open>string\<close>; the string methods the code calls are written out for
  ASCII text.
\<close>

definition lower_char :: "char \<Rightarrow> char" where
  "lower_char c =
     (case map_of (zip ''ABCDEFGHIJKLMNOPQRSTUVWXYZ'' ''abcdefghijklmnopqrstuvwxyz'') c of
        Some d \<Rightarrow> d
      | None \<Rightarrow> c)"

definition lower :: "string \<Rightarrow> string" where
  \<comment> \<open>\<^verbatim>\<open>s.lower()\<close>\<close>
  "lower s = map lower_char s"

fun contains :: "string \<Rightarrow> string \<Rightarrow> bool" where
  \<comment> \<open>\<^verbatim>\<open>sub in s\<close> for strings: \<open>sub\<close> occurs in \<open>s\<close> as a contiguous piece\<close>
  "contains sub [] = (sub = [])"
| "contains sub (c # cs) = (prefix sub (c # cs) \<or> contains sub cs)"

definition is_space :: "char \<Rightarrow> bool" where
  \<comment> \<open>the ASCII characters that \<^verbatim>\<open>str.split()\<close> treats as whitespace\<close>
  "is_space c =
     (c \<in> set [CHR 0x20, CHR 0x09, CHR 0x0A, CHR 0x0B, CHR 0x0C, CHR 0x0D,
                 CHR 0x1C, CHR 0x1D, CHR 0x1E, CHR 0x1F])"

fun split_ws :: "string \<Rightarrow> string \<Rightarrow> string list" where
  \<comment> \<open>\<^verbatim>\<open>s.split()\<close>: the maximal runs of non-whitespace; the first argument is the
      run being read\<close>
  "split_ws w [] = (if w = [] then [] else [w])"
| "split_ws w (c # cs) =
     (if is_space c then (if w = [] then split_ws [] cs else w # split_ws [] cs)
      else split_ws (w @ [c]) cs)"

definition split :: "string \<Rightarrow> string list" where
  "split s = split_ws [] s"

fun split_char :: "char \<Rightarrow> string \<Rightarrow> string list" where
  \<comment> \<open>\<^verbatim>\<open>s.split(d)\<close> for a separator of one character\<close>
  "split_char d [] = [[]]"
| "split_char d (c # cs) =
     (if c = d then [] # split_char d cs
      else (case split_char d cs of [] \<Rightarrow> [[c]] | p # ps \<Rightarrow> (c # p) # ps))"

fun before_sep :: "string \<Rightarrow> string \<Rightarrow> string" where
  \<comment> \<open>\<^verbatim>\<open>s.split(sep)[0]\<close> for a non-empty separator: the text before its first
      occurrence\<close>
  "before_sep sep [] = []"
| "before_sep sep (c # cs) = (if prefix sep (c # cs) then [] else c # before_sep sep cs)"

text \<open>
  Exceptions are values. \<open>RequestException\<close> is \<^verbatim>\<open>requests.exceptions.RequestException\<close>
  (every network-level failure of \<^verbatim>\<open>session.get\<close>); \<open>FetchFailed url n\<close> is the plain
  \<^verbatim>\<open>Exception(f"Failed to fetch {url} after {max_retries} attempts")\<close> that \<^verbatim>\<open>main.py\<close>
  raises itself; \<open>ValueError\<close> is what \<^verbatim>\<open>urlparse\<close> and \<^verbatim>\<open>json.loads\<close> raise on malformed
  input; \<open>LookupError\<close> and \<open>TypeError\<close> are what indexing a decoded JSON value can raise;
  \<open>RedisError\<close> is what the Redis client raises (\<^verbatim>\<open>redis.exceptions.ConnectionError\<close> when
  the server cannot be reached, \<^verbatim>\<open>ResponseError\<close> when it refuses a command).
\<close>

datatype exn =
    RequestException string
  | FetchFailed string nat
  | ValueError string
  | LookupError string
  | TypeError string
  | RedisError string

text \<open>
  Python values that travel through the cache and out of \<^verbatim>\<open>search\<close> and
  \<^verbatim>\<open>get_suggestions\<close>: \<^verbatim>\<open>None\<close>, booleans, integers, strings, lists and dicts (a dict
  keeps its insertion order, so it is an association list).
\<close>

datatype pyval =
    PNone
  | PBool bool
  | PInt int
  | PStr string
  | PList "pyval list"
  | PDict "(string \<times> pyval) list"

fun truthy :: "pyval \<Rightarrow> bool" where
  \<comment> \<open>\<^verbatim>\<open>if v:\<close>\<close>
  "truthy PNone = False"
| "truthy (PBool b) = b"
| "truthy (PInt i) = (i \<noteq> 0)"
| "truthy (PStr s) = (s \<noteq> [])"
| "truthy (PList xs) = (xs \<noteq> [])"
| "truthy (PDict kvs) = (kvs \<noteq> [])"

fun index1 :: "pyval \<Rightarrow> exn + pyval" where
  \<comment> \<open>\<^verbatim>\<open>v[1]\<close>\<close>
  "index1 (PList xs) = (if 1 < length xs then Inr (xs ! 1) else Inl (LookupError ''IndexError''))"
| "index1 (PStr s) = (if 1 < length s then Inr (PStr [s ! 1]) else Inl (LookupError ''IndexError''))"
| "index1 (PDict kvs) = Inl (LookupError ''KeyError'')"
| "index1 v = Inl (TypeError ''not subscriptable'')"

text \<open>
  The library functions the code calls and the repository does not contain are
  parameters of the model, gathered in one record:
  \<^item> \<open>netloc url\<close> is \<^verbatim>\<open>urlparse(url).netloc\<close>, or the \<^verbatim>\<open>ValueError\<close> that \<^verbatim>\<open>urlparse\<close> raises;
  \<^item> \<open>re_search pattern text\<close> is \<^verbatim>\<open>re.search(pattern, text)\<close> for the three date patterns
    of \<^verbatim>\<open>_extract_date\<close>: the matched text \<^verbatim>\<open>match.group()\<close>, if any;
  \<^item> \<open>iso_to_display m\<close> is
    \<^verbatim>\<open>datetime.strptime(m, '%Y-%m-%d').strftime('%b %d, %Y')\<close>, \<open>None\<close> when it raises;
  \<^item> \<open>days_old d\<close> is \<^verbatim>\<open>(datetime.now() - datetime.strptime(d, '%b %d, %Y')).days\<close>,
    \<open>None\<close> when \<^verbatim>\<open>strptime\<close> raises;
  \<^item> \<open>json_loads text\<close> is \<^verbatim>\<open>json.loads(text)\<close> (and \<^verbatim>\<open>response.json()\<close>);
  \<^item> \<open>json_dumps v\<close> is \<^verbatim>\<open>json.dumps(v)\<close>, which raises on no value of \<open>pyval\<close>: these
    are \<^verbatim>\<open>None\<close>, booleans, integers, strings, lists, and dicts with string keys;
  \<^item> \<open>float_add a b\<close> is the sum \<^verbatim>\<open>a + b\<close> of two floats as Python computes it (rounded
    to a double);
  \<^item> \<open>md5_hexdigest s\<close> is \<^verbatim>\<open>hashlib.md5(s.encode()).hexdigest()\<close>;
  \<^item> \<open>str_of_int n\<close> is the decimal text of \<open>n\<close> in an f-string;
  \<^item> \<open>g_results html\<close>, \<open>tF2Cxc_divs html\<close> and \<open>kp_wholepage html\<close> are what
    \<^verbatim>\<open>BeautifulSoup(html, 'html.parser')\<close> answers to the \<^verbatim>\<open>find_all\<close> and \<^verbatim>\<open>find\<close> calls of
    the two parsers (the records are declared before the parsers below).
\<close>

datatype date_pattern = DayMonthNameYear | IsoDate | SlashDate

text \<open>
  One element of \<^verbatim>\<open>soup.find_all(['div', 'article'], {'class': ['g', 'result']})\<close> as
  \<^verbatim>\<open>main.py\<close> reads it: the stripped text of the first \<^verbatim>\<open>h3/h2/h1\<close>, the \<^verbatim>\<open>href\<close> of the
  first \<^verbatim>\<open>a\<close> (\<open>None\<close>: no link; \<open>Some None\<close>: a link without \<^verbatim>\<open>href\<close>), and the stripped
  text of the snippet element.
\<close>

record g_container =
  g_heading :: "string option"
  g_link :: "string option option"
  g_snippet :: "string option"

text \<open>
  One element of \<^verbatim>\<open>soup.find_all('div', {'class': 'tF2Cxc'})\<close> as \<^verbatim>\<open>app.py\<close> reads it:
  the text of the \<^verbatim>\<open>h3\<close>, the link's \<^verbatim>\<open>href\<close>, the text of the \<^verbatim>\<open>VwiC3b\<close> div and of the
  \<^verbatim>\<open>MUxGbd\<close> span.
\<close>

record t_container =
  t_h3 :: "string option"
  t_link :: "string option option"
  t_snippet :: "string option"
  t_date :: "string option"

text \<open>
  The \<^verbatim>\<open>kp-wholepage\<close> div as \<^verbatim>\<open>_extract_info_box\<close> reads it: the stripped text of the
  title node and of the description node (primary selector or fallback), and the
  \<^verbatim>\<open>src\<close> attribute of the image node.
\<close>

record kp_node =
  kp_title :: "string option"
  kp_description :: "string option"
  kp_image_src :: "string option"

record pylib =
  netloc :: "string \<Rightarrow> exn + string"
  re_search :: "date_pattern \<Rightarrow> string \<Rightarrow> string option"
  iso_to_display :: "string \<Rightarrow> string option"
  days_old :: "string \<Rightarrow> int option"
  json_loads :: "string \<Rightarrow> exn + pyval"
  json_dumps :: "pyval \<Rightarrow> string"
  float_add :: "real \<Rightarrow> real \<Rightarrow> real"
  md5_hexdigest :: "string \<Rightarrow> string"
  str_of_int :: "int \<Rightarrow> string"
  g_results :: "string \<Rightarrow> g_container list"
  tF2Cxc_divs :: "string \<Rightarrow> t_container list"
  kp_wholepage :: "string \<Rightarrow> kp_node option"

section \<open>Categorizer\<close>

text \<open>
  \<^verbatim>\<open>_categorize_result\<close>: the dict \<^verbatim>\<open>categories\<close> is walked in insertion order and the
  first category with a keyword in the domain or in the text is returned.
\<close>

definition main_categories :: "(string \<times> string list) list" where
  "main_categories =
    [(''news'', [''news'', ''breaking'', ''latest'', ''report'', ''update'']),
     (''shopping'', [''shop'', ''buy'', ''price'', ''deal'', ''amazon'', ''store'']),
     (''social'', [''facebook'', ''twitter'', ''instagram'', ''linkedin'', ''reddit'']),
     (''video'', [''youtube'', ''video'', ''watch'', ''stream'', ''vimeo'']),
     (''academic'', [''research'', ''study'', ''paper'', ''journal'', ''.edu'']),
     (''official'', [''official'', ''gov'', ''organization'', ''.gov'', ''.org'']),
     (''tech'', [''technology'', ''software'', ''hardware'', ''review'', ''digital''])]"

definition app_categories :: "(string \<times> string list) list" where
  "app_categories =
    [(''news'', [''news'', ''article'', ''blog'', ''press'']),
     (''shopping'', [''shop'', ''store'', ''buy'', ''price'']),
     (''social'', [''facebook.com'', ''twitter.com'', ''instagram.com'', ''linkedin.com'']),
     (''video'', [''youtube.com'', ''vimeo.com'', ''watch'', ''video'']),
     (''academic'', [''edu'', ''academic'', ''research'', ''study'']),
     (''official'', [''gov'', ''official'', ''organization'']),
     (''forums'', [''reddit.com'', ''quora.com'', ''forum'', ''discussion'']),
     (''tech'', [''tech'', ''gadget'', ''review''])]"

definition keyword_hit :: "string list \<Rightarrow> string \<Rightarrow> string \<Rightarrow> bool" where
  \<comment> \<open>\<^verbatim>\<open>any(keyword in domain ...) or any(keyword in text ...)\<close>\<close>
  "keyword_hit keywords domain text =
     (list_ex (\<lambda>keyword. contains keyword domain) keywords \<or>
      list_ex (\<lambda>keyword. contains keyword text) keywords)"

fun first_category :: "(string \<times> string list) list \<Rightarrow> string \<Rightarrow> string \<Rightarrow> string" where
  \<comment> \<open>the \<^verbatim>\<open>for category, keywords in categories.items()\<close> loop and the final
      \<^verbatim>\<open>return 'general'\<close>\<close>
  "first_category [] domain text = ''general''"
| "first_category ((category, keywords) # rest) domain text =
     (if keyword_hit keywords domain text then category
      else first_category rest domain text)"

definition main_categorize_result :: "pylib \<Rightarrow> string \<Rightarrow> string \<Rightarrow> string \<Rightarrow> exn + string" where
  "main_categorize_result lib url title snippet =
     (case netloc lib url of
        Inl e \<Rightarrow> Inl e
      | Inr nl \<Rightarrow>
          Inr (first_category main_categories (lower nl) (lower title @ '' '' @ lower snippet)))"

definition app_categorize_result :: "pylib \<Rightarrow> string \<Rightarrow> string \<Rightarrow> exn + string" where
  "app_categorize_result lib url title =
     (case netloc lib url of
        Inl e \<Rightarrow> Inl e
      | Inr nl \<Rightarrow> Inr (first_category app_categories (lower nl) (lower title)))"

definition category_enum :: "string list" where
  \<comment> \<open>the enumeration of the data model\<close>
  "category_enum =
     [''news'', ''shopping'', ''social'', ''video'', ''academic'', ''official'', ''forums'',
      ''tech'', ''general'']"

section \<open>Fetcher\<close>

text \<open>
  The network is an oracle: \<open>net url params attempt\<close> is what
  \<^verbatim>\<open>session.get(url, params=params, ...)\<close> does on the attempt with that number, either a
  response or a raised \<^verbatim>\<open>RequestException\<close>. The sleeps of the retry loops change no result and are left out.
  Each fetch also returns the number of \<^verbatim>\<open>session.get\<close> calls it made.
\<close>

record response =
  status_code :: int
  resp_text :: string

datatype outcome = Responded response | Raised string

type_synonym params = "(string \<times> pyval) list"

type_synonym network = "string \<Rightarrow> params \<Rightarrow> nat \<Rightarrow> outcome"

fun main_fetch_attempts ::
  "string \<Rightarrow> nat \<Rightarrow> (nat \<Rightarrow> outcome) \<Rightarrow> nat list \<Rightarrow> exn option \<Rightarrow> nat \<Rightarrow> (exn + response) \<times> nat"
where
  \<comment> \<open>the \<^verbatim>\<open>for attempt in range(max_retries)\<close> loop of \<^verbatim>\<open>main.py\<close> with its
      \<^verbatim>\<open>last_exception\<close>, and the two \<^verbatim>\<open>raise\<close> statements after it\<close>
  "main_fetch_attempts url max_retries get [] last_exception n =
     (case last_exception of
        Some e \<Rightarrow> (Inl e, n)
      | None \<Rightarrow> (Inl (FetchFailed url max_retries), n))"
| "main_fetch_attempts url max_retries get (attempt # rest) last_exception n =
     (case get attempt of
        Responded r \<Rightarrow>
          if status_code r = 200 then (Inr r, Suc n)
          else main_fetch_attempts url max_retries get rest last_exception (Suc n)
      | Raised e \<Rightarrow>
          main_fetch_attempts url max_retries get rest (Some (RequestException e)) (Suc n))"

definition main_fetch_with_retry ::
  "network \<Rightarrow> string \<Rightarrow> params \<Rightarrow> nat \<Rightarrow> (exn + response) \<times> nat"
where
  "main_fetch_with_retry net url params max_retries =
     main_fetch_attempts url max_retries (net url params) [0..<max_retries] None 0"

fun app_fetch_attempts ::
  "nat \<Rightarrow> (nat \<Rightarrow> outcome) \<Rightarrow> nat list \<Rightarrow> nat \<Rightarrow> (exn + response option) \<times> nat"
where
  \<comment> \<open>the retry loop of \<^verbatim>\<open>app.py\<close>: a \<^verbatim>\<open>RequestException\<close> is re-raised on the last
      attempt only; \<^verbatim>\<open>return None\<close> after the loop\<close>
  "app_fetch_attempts max_retries get [] n = (Inr None, n)"
| "app_fetch_attempts max_retries get (attempt # rest) n =
     (case get attempt of
        Responded r \<Rightarrow>
          if status_code r = 200 then (Inr (Some r), Suc n)
          else app_fetch_attempts max_retries get rest (Suc n)
      | Raised e \<Rightarrow>
          if int attempt = int max_retries - 1 then (Inl (RequestException e), Suc n)
          else app_fetch_attempts max_retries get rest (Suc n))"

definition app_fetch_with_retry ::
  "network \<Rightarrow> string \<Rightarrow> params \<Rightarrow> nat \<Rightarrow> (exn + response option) \<times> nat"
where
  "app_fetch_with_retry net url params max_retries =
     app_fetch_attempts max_retries (net url params) [0..<max_retries] 0"

section \<open>Cache store of \<^verbatim>\<open>main.py\<close>\<close>

text \<open>
  \<^verbatim>\<open>main.py\<close> caches in Redis when the module-level \<^verbatim>\<open>redis_client\<close> is a client, and in
  the dict \<^verbatim>\<open>in_memory_cache\<close> (a dict from key to \<^verbatim>\<open>(data, expire_time)\<close>) when it is
  \<^verbatim>\<open>None\<close>. Every cache operation happens at a moment: the value of the clock
  (\<^verbatim>\<open>time.time()\<close>, in seconds) and whether the Redis server answers at that moment.
  The in-process operations run under \<^verbatim>\<open>cache_lock\<close>, so each is one atomic step.
\<close>

record moment =
  clock :: real
  redis_up :: bool

type_synonym in_memory_cache = "string \<rightharpoonup> pyval \<times> real"

text \<open>
  The Redis server is outside the repository. The two commands the code sends are
  modelled after the Redis documentation, as the \<^verbatim>\<open>redis\<close> client with
  \<^verbatim>\<open>decode_responses=True\<close> presents them: the database maps a key to a string and
  the time at which it expires; \<^verbatim>\<open>GET\<close> answers the string of a key that has not
  expired; \<^verbatim>\<open>SETEX\<close> stores a string with a time to live, which must be a positive
  whole number of seconds; a command to a server that cannot be reached raises
  \<^verbatim>\<open>ConnectionError\<close>. The server reads the same clock.
\<close>

type_synonym redis_db = "string \<rightharpoonup> string \<times> real"

definition redis_get :: "redis_db \<Rightarrow> moment \<Rightarrow> string \<Rightarrow> exn + string option" where
  \<comment> \<open>\<^verbatim>\<open>redis_client.get(key)\<close>\<close>
  "redis_get db m key =
     (if \<not> redis_up m then Inl (RedisError ''ConnectionError'')
      else Inr (case db key of
                  None \<Rightarrow> None
                | Some (v, expires) \<Rightarrow> if clock m < expires then Some v else None))"

definition redis_setex :: "redis_db \<Rightarrow> moment \<Rightarrow> string \<Rightarrow> real \<Rightarrow> string \<Rightarrow> exn + redis_db" where
  \<comment> \<open>\<^verbatim>\<open>redis_client.setex(key, seconds, v)\<close>\<close>
  "redis_setex db m key seconds v =
     (if \<not> redis_up m then Inl (RedisError ''ConnectionError'')
      else if seconds \<le> 0 \<or> real_of_int \<lfloor>seconds\<rfloor> \<noteq> seconds then Inl (RedisError ''ResponseError'')
      else Inr (db(key \<mapsto> (v, clock m + seconds))))"

datatype cache_store = Redis redis_db | InMemory in_memory_cache

definition main_get_from_cache ::
  "pylib \<Rightarrow> cache_store \<Rightarrow> moment \<Rightarrow> string \<Rightarrow> exn + pyval option \<times> cache_store"
where
  \<comment> \<open>\<^verbatim>\<open>_get_from_cache\<close>: the value (\<open>None\<close>: nothing cached) and the store after the
      read, or the exception of the Redis client or of \<^verbatim>\<open>json.loads\<close>\<close>
  "main_get_from_cache lib store m key =
     (case store of
        Redis db \<Rightarrow>
          (case redis_get db m key of
             Inl e \<Rightarrow> Inl e
           | Inr None \<Rightarrow> Inr (None, store)
           | Inr (Some cached) \<Rightarrow>
               if cached \<noteq> [] then
                 (case json_loads lib cached of
                    Inl e \<Rightarrow> Inl e
                  | Inr v \<Rightarrow> Inr (Some v, store))
               else Inr (None, store))
      | InMemory cache \<Rightarrow>
          (case cache key of
             None \<Rightarrow> Inr (None, store)
           | Some (data, expire_time) \<Rightarrow>
               if clock m < expire_time then Inr (Some data, store)
               else Inr (None, InMemory (cache(key := None)))))"

definition main_save_to_cache ::
  "pylib \<Rightarrow> cache_store \<Rightarrow> moment \<Rightarrow> string \<Rightarrow> pyval \<Rightarrow> real \<Rightarrow> exn + cache_store"
where
  \<comment> \<open>\<^verbatim>\<open>_save_to_cache(key, data, expire_time)\<close>: the store after the write, or the
      exception of the Redis client\<close>
  "main_save_to_cache lib store m key data expire_time =
     (case store of
        Redis db \<Rightarrow>
          (case redis_setex db m key expire_time (json_dumps lib data) of
             Inl e \<Rightarrow> Inl e
           | Inr db' \<Rightarrow> Inr (Redis db'))
      | InMemory cache \<Rightarrow>
          Inr (InMemory (cache(key \<mapsto> (data, float_add lib (clock m) expire_time)))))"

definition main_get_cache_key :: "pylib \<Rightarrow> string \<Rightarrow> int \<Rightarrow> string" where
  "main_get_cache_key lib query page = md5_hexdigest lib (query @ ''_'' @ str_of_int lib page)"

section \<open>Result parser\<close>

record SearchResult =
  title :: string
  url :: string
  snippet :: string
  category :: string
  date :: "string option"
  favicon :: string
  score :: int

definition new_SearchResult :: "string \<Rightarrow> string \<Rightarrow> string \<Rightarrow> string \<Rightarrow> string option \<Rightarrow> SearchResult" where
  \<comment> \<open>\<^verbatim>\<open>SearchResult.__init__\<close> with \<^verbatim>\<open>favicon=None\<close>\<close>
  "new_SearchResult t u s c d =
     \<lparr>title = t, url = u, snippet = s, category = c, date = d,
      favicon = ''https://www.google.com/s2/favicons?domain='' @ u, score = 0\<rparr>"

definition display_url_of :: "string \<Rightarrow> string" where
  \<comment> \<open>\<^verbatim>\<open>url[:60] + '...' if len(url) > 60 else url\<close>\<close>
  "display_url_of u = (if length u > 60 then take 60 u @ ''...'' else u)"

definition to_dict :: "SearchResult \<Rightarrow> pyval" where
  "to_dict r =
     PDict
      [(''title'', PStr (title r)),
       (''url'', PStr (url r)),
       (''display_url'', PStr (display_url_of (url r))),
       (''snippet'', PStr (snippet r)),
       (''category'', PStr (category r)),
       (''date'', (case date r of None \<Rightarrow> PNone | Some d \<Rightarrow> PStr d)),
       (''favicon'', PStr (favicon r)),
       (''score'', PInt (score r)),
       (''type'', PStr ''regular'')]"

fun extract_date_loop :: "pylib \<Rightarrow> date_pattern list \<Rightarrow> string \<Rightarrow> string option" where
  "extract_date_loop lib [] txt = None"
| "extract_date_loop lib (pattern # rest) txt =
     (case re_search lib pattern txt of
        Some m \<Rightarrow> (case iso_to_display lib m of Some d \<Rightarrow> Some d | None \<Rightarrow> Some m)
      | None \<Rightarrow> extract_date_loop lib rest txt)"

definition main_extract_date :: "pylib \<Rightarrow> string \<Rightarrow> string option" where
  "main_extract_date lib txt = extract_date_loop lib [DayMonthNameYear, IsoDate, SlashDate] txt"

definition unwrap_redirect :: "string \<Rightarrow> string" where
  \<comment> \<open>\<^verbatim>\<open>url.split('/url?q=')[1].split('&')[0]\<close> for a url that starts with \<^verbatim>\<open>/url?q=\<close>\<close>
  "unwrap_redirect u = before_sep ''&'' (before_sep ''/url?q='' (drop (length ''/url?q='') u))"

definition main_parse_candidate :: "pylib \<Rightarrow> g_container \<Rightarrow> SearchResult option" where
  \<comment> \<open>the body of the loop over the containers; \<open>None\<close> is a skipped candidate
      (\<^verbatim>\<open>continue\<close>, the failed \<^verbatim>\<open>if title and url and snippet\<close>, or a caught exception)\<close>
  "main_parse_candidate lib node =
     (case g_heading node of
        None \<Rightarrow> None
      | Some ti \<Rightarrow>
         (case g_link node of
            None \<Rightarrow> None
          | Some None \<Rightarrow> None
          | Some (Some href) \<Rightarrow>
              if href = [] then None
              else
                let u = (if prefix ''/url?q='' href then unwrap_redirect href else href);
                    sn = (case g_snippet node of Some s \<Rightarrow> s | None \<Rightarrow> [])
                in if ti \<noteq> [] \<and> u \<noteq> [] \<and> sn \<noteq> [] then
                     (let da = main_extract_date lib sn in
                      case main_categorize_result lib u ti sn of
                        Inl e \<Rightarrow> None
                      | Inr ca \<Rightarrow> Some (new_SearchResult ti u sn ca da))
                   else None))"

definition main_parse_results :: "pylib \<Rightarrow> string \<Rightarrow> SearchResult list" where
  "main_parse_results lib html = List.map_filter (main_parse_candidate lib) (g_results lib html)"

text \<open>
  The result dicts of \<^verbatim>\<open>app.py\<close>. A dict is either the info box (keys \<^verbatim>\<open>title\<close>,
  \<^verbatim>\<open>description\<close>, \<^verbatim>\<open>image_url\<close>, \<^verbatim>\<open>type\<close>, and \<^verbatim>\<open>score\<close> once ranked) or a regular result;
  the record has the union of the keys, and \<open>d_type\<close> is the value under \<^verbatim>\<open>'type'\<close>. A key
  that a dict does not have holds the empty value here; the code reads no such key.
\<close>

record app_result =
  d_type :: string
  d_title :: string
  d_url :: string
  d_display_url :: string
  d_snippet :: string
  d_favicon :: string
  d_category :: string
  d_score :: int
  d_date :: "string option"
  d_description :: string
  d_image_url :: "string option"

definition app_extract_info_box :: "pylib \<Rightarrow> string \<Rightarrow> app_result option" where
  "app_extract_info_box lib html =
     (case kp_wholepage lib html of
        None \<Rightarrow> None
      | Some info_box \<Rightarrow>
          Some \<lparr>d_type = ''info_box'',
                d_title = (case kp_title info_box of Some t \<Rightarrow> t | None \<Rightarrow> []),
                d_url = [], d_display_url = [], d_snippet = [], d_favicon = [],
                d_category = [], d_score = 0, d_date = None,
                d_description = (case kp_description info_box of Some t \<Rightarrow> t | None \<Rightarrow> []),
                d_image_url =
                  (case kp_image_src info_box of
                     Some src \<Rightarrow> if src \<noteq> [] then Some src else None
                   | None \<Rightarrow> None)\<rparr>)"

definition app_parse_candidate :: "pylib \<Rightarrow> t_container \<Rightarrow> app_result option" where
  \<comment> \<open>the body of the loop over the \<^verbatim>\<open>tF2Cxc\<close> divs; \<open>None\<close> is a skipped candidate
      (\<^verbatim>\<open>continue\<close> or a caught exception)\<close>
  "app_parse_candidate lib node =
     (let href = (case t_link node of Some h \<Rightarrow> h | None \<Rightarrow> None);
          sn = (case t_snippet node of Some s \<Rightarrow> s | None \<Rightarrow> [])
      in case (href, t_h3 node) of
           (Some u, Some ti) \<Rightarrow>
             if u = [] then None
             else
               (case app_categorize_result lib u ti of
                  Inl e \<Rightarrow> None
                | Inr ca \<Rightarrow>
                    Some \<lparr>d_type = ''regular'', d_title = ti, d_url = u,
                          d_display_url = display_url_of u, d_snippet = sn,
                          d_favicon = ''https://www.google.com/s2/favicons?domain='' @ u,
                          d_category = ca, d_score = 0, d_date = t_date node,
                          d_description = [], d_image_url = None\<rparr>)
         | _ \<Rightarrow> None)"

definition app_parse_results :: "pylib \<Rightarrow> string \<Rightarrow> app_result list" where
  "app_parse_results lib html =
     (case app_extract_info_box lib html of None \<Rightarrow> [] | Some info_box \<Rightarrow> [info_box])
     @ List.map_filter (app_parse_candidate lib) (tF2Cxc_divs lib html)"

section \<open>Ranker\<close>

fun for_each :: "('a \<Rightarrow> exn + 'b) \<Rightarrow> 'a list \<Rightarrow> exn + 'b list" where
  \<comment> \<open>a \<^verbatim>\<open>for\<close> loop whose body may raise: the first exception ends the loop\<close>
  "for_each f [] = Inr []"
| "for_each f (x # xs) =
     (case f x of
        Inl e \<Rightarrow> Inl e
      | Inr y \<Rightarrow> (case for_each f xs of Inl e \<Rightarrow> Inl e | Inr ys \<Rightarrow> Inr (y # ys)))"

definition sorted_reverse :: "('a \<Rightarrow> int) \<Rightarrow> 'a list \<Rightarrow> 'a list" where
  \<comment> \<open>\<^verbatim>\<open>sorted(xs, key=key, reverse=True)\<close>: Python's sort is stable, and with
      \<^verbatim>\<open>reverse=True\<close> elements with equal keys keep their original order, so the
      result is the stable ascending sort by the negated key\<close>
  "sorted_reverse key xs = sort_key (\<lambda>x. - key x) xs"

definition main_score :: "pylib \<Rightarrow> string \<Rightarrow> SearchResult \<Rightarrow> exn + int" where
  "main_score lib query r =
     (let query_terms = split (lower query);
          title_lower = lower (title r);
          s1 = (if contains (lower query) title_lower then 30 else 0);
          s2 = s1 + sum_list (map (\<lambda>term. 10) (filter (\<lambda>term. contains term title_lower) query_terms))
      in case netloc lib (url r) of
           Inl e \<Rightarrow> Inl e
         | Inr domain \<Rightarrow>
            (let s3 = s2 + (if list_ex (\<lambda>tld. contains tld domain) [''.edu'', ''.gov'', ''.org'']
                            then 15 else 0);
                 s4 = s3 + (if length (split_char CHR ''.'' domain) = 2 then 5 else 0);
                 snippet_lower = lower (snippet r);
                 s5 = s4 + sum_list (map (\<lambda>term. 5)
                             (filter (\<lambda>term. contains term snippet_lower) query_terms));
                 s6 = s5 + (case date r of
                              None \<Rightarrow> 0
                            | Some d \<Rightarrow>
                                if d = [] then 0
                                else (case days_old lib d of
                                        None \<Rightarrow> 0
                                      | Some days \<Rightarrow>
                                          if days < 30 then 20 else if days < 90 then 10 else 0));
                 s7 = s6 + (if category r \<in> set [''news'', ''official'', ''academic''] then 10 else 0)
             in Inr s7))"

definition main_rank_results :: "pylib \<Rightarrow> string \<Rightarrow> SearchResult list \<Rightarrow> exn + SearchResult list" where
  "main_rank_results lib query results =
     (case for_each (\<lambda>r. case main_score lib query r of
                            Inl e \<Rightarrow> Inl e
                          | Inr s \<Rightarrow> Inr (r\<lparr>score := s\<rparr>)) results of
        Inl e \<Rightarrow> Inl e
      | Inr scored \<Rightarrow> Inr (sorted_reverse score scored))"

definition app_score :: "pylib \<Rightarrow> string \<Rightarrow> app_result \<Rightarrow> exn + int" where
  "app_score lib query r =
     (let keywords = split (lower query);
          title_lower = lower (d_title r);
          snippet_lower = lower (d_snippet r);
          s1 = (if contains (lower query) title_lower then 20 else 0);
          s2 = s1 + (if contains (lower query) snippet_lower then 10 else 0);
          title_keywords = int (length (filter (\<lambda>word. contains word title_lower) keywords));
          snippet_keywords = int (length (filter (\<lambda>word. contains word snippet_lower) keywords));
          s3 = s2 + (title_keywords * 3 + snippet_keywords * 2);
          s4 = s3 + (if contains ''2024'' (case d_date r of Some d \<Rightarrow> d | None \<Rightarrow> [])
                     then 10 else 0)
      in case netloc lib (d_url r) of
           Inl e \<Rightarrow> Inl e
         | Inr domain \<Rightarrow>
            (let s5 = s4 + (if list_ex (\<lambda>tld. contains tld domain) [''.edu'', ''.gov'', ''.org'']
                            then 8 else 0);
                 s6 = s5 + (if d_category r \<in> set [''news'', ''official'', ''tech''] then 5 else 0)
             in Inr s6))"

definition app_rank_one :: "pylib \<Rightarrow> string \<Rightarrow> app_result \<Rightarrow> exn + app_result" where
  \<comment> \<open>the body of the scoring loop of \<^verbatim>\<open>app.py\<close>\<close>
  "app_rank_one lib query r =
     (if d_type r = ''info_box'' then Inr (r\<lparr>d_score := 50\<rparr>)
      else (case app_score lib query r of
              Inl e \<Rightarrow> Inl e
            | Inr s \<Rightarrow> Inr (r\<lparr>d_score := s\<rparr>)))"

definition app_rank_results :: "pylib \<Rightarrow> string \<Rightarrow> app_result list \<Rightarrow> exn + app_result list" where
  "app_rank_results lib query results =
     (case for_each (app_rank_one lib query) results of
        Inl e \<Rightarrow> Inl e
      | Inr scored \<Rightarrow>
          (let info_boxes = filter (\<lambda>r. d_type r = ''info_box'') scored;
               regular_results =
                 sorted_reverse d_score (filter (\<lambda>r. d_type r = ''regular'') scored)
           in Inr (info_boxes @ regular_results)))"

section \<open>Aggregator\<close>

definition search_urls :: "string list" where
  "search_urls = [''https://www.google.com/search'', ''https://www.bing.com/search'']"

definition main_search_params :: "string \<Rightarrow> int \<Rightarrow> params" where
  "main_search_params query page =
     [(''q'', PStr query), (''start'', PInt ((page - 1) * 10)), (''num'', PInt 10),
      (''hl'', PStr ''en''), (''safe'', PStr ''active'')]"

definition main_search_single_engine ::
  "pylib \<Rightarrow> network \<Rightarrow> string \<Rightarrow> string \<Rightarrow> int \<Rightarrow> (exn + SearchResult list) \<times> nat"
where
  \<comment> \<open>one task of the pool: every exception is caught and becomes \<^verbatim>\<open>[]\<close>, so the
      future never holds an exception; the second component counts the requests\<close>
  "main_search_single_engine lib net search_url query page =
     (case main_fetch_with_retry net search_url (main_search_params query page) 2 of
        (Inl e, n) \<Rightarrow> (Inr [], n)
      | (Inr resp, n) \<Rightarrow>
          if resp_text resp \<noteq> [] then (Inr (main_parse_results lib (resp_text resp)), n)
          else (Inr [], n))"

text \<open>
  \<^verbatim>\<open>as_completed(futures)\<close> yields the two futures in the order they finish, which the
  scheduler decides: the submission order or its reverse.
\<close>

datatype completion = SubmissionOrder | ReverseOrder

definition as_completed :: "completion \<Rightarrow> 'a list \<Rightarrow> 'a list" where
  "as_completed order futures = (case order of SubmissionOrder \<Rightarrow> futures | ReverseOrder \<Rightarrow> rev futures)"

fun collect ::
  "(exn + SearchResult list) list \<Rightarrow> SearchResult list \<Rightarrow> exn list \<Rightarrow> SearchResult list \<times> exn list"
where
  \<comment> \<open>the loop over \<^verbatim>\<open>as_completed(futures)\<close> with its \<^verbatim>\<open>break\<close> at five results\<close>
  "collect [] results errors = (results, errors)"
| "collect (future # rest) results errors =
     (case future of
        Inr current_results \<Rightarrow>
          (let results' = results @ current_results
           in if length results' \<ge> 5 then (results', errors) else collect rest results' errors)
      | Inl e \<Rightarrow> collect rest results (errors @ [e]))"

text \<open>
  The state of \<^verbatim>\<open>main.py\<close>: the cache store and, for the proofs, the number of requests
  sent so far. The module builds its Redis client in a \<^verbatim>\<open>try\<close> block and falls back to
  \<^verbatim>\<open>redis_client = None\<close> when the constructor raises; \<^verbatim>\<open>__init__\<close> creates the dict only
  then. The first argument of \<open>new_ImprovedSearch\<close> is what
  \<^verbatim>\<open>redis.Redis(host='localhost', port=6379, db=0, decode_responses=True)\<close> does; the
  second is the database the client will talk to.
\<close>

record main_state =
  store :: cache_store
  requests :: nat

definition new_ImprovedSearch :: "exn + unit \<Rightarrow> redis_db \<Rightarrow> main_state" where
  "new_ImprovedSearch constructed db =
     \<lparr>store = (case constructed of Inr client \<Rightarrow> Redis db | Inl e \<Rightarrow> InMemory Map.empty),
      requests = 0\<rparr>"

definition main_search_miss ::
  "pylib \<Rightarrow> network \<Rightarrow> completion \<Rightarrow> moment \<Rightarrow> main_state \<Rightarrow> string \<Rightarrow> string \<Rightarrow> int
     \<Rightarrow> (exn + pyval) \<times> main_state"
where
  \<comment> \<open>\<^verbatim>\<open>search\<close> after the cache check found nothing to return: fan-out, collection,
      ranking, serialization, cache write at moment \<open>m1\<close>; the write stands in no
      \<^verbatim>\<open>try\<close>, so its exception is the exception of \<^verbatim>\<open>search\<close>\<close>
  "main_search_miss lib net order m1 st cache_key query page =
     (let futures = map (\<lambda>search_url. main_search_single_engine lib net search_url query page)
                        search_urls;
          st1 = st\<lparr>requests := requests st + sum_list (map snd futures)\<rparr>;
          (results, errors) = collect (as_completed order (map fst futures)) [] []
      in if results = [] \<and> errors \<noteq> [] then (Inr (PList []), st1)
         else
           (case main_rank_results lib query results of
              Inl e \<Rightarrow> (Inl e, st1)
            | Inr ranked_results \<Rightarrow>
                (let serialized_results = PList (map to_dict ranked_results)
                 in case main_save_to_cache lib (store st1) m1 cache_key serialized_results 3600 of
                      Inl e \<Rightarrow> (Inl e, st1)
                    | Inr store' \<Rightarrow> (Inr serialized_results, st1\<lparr>store := store'\<rparr>))))"

definition main_search ::
  "pylib \<Rightarrow> network \<Rightarrow> completion \<Rightarrow> moment \<Rightarrow> moment \<Rightarrow> main_state \<Rightarrow> string \<Rightarrow> int
     \<Rightarrow> (exn + pyval) \<times> main_state"
where
  \<comment> \<open>\<open>m0\<close> is the moment of the cache read, \<open>m1\<close> that of the cache write; the read
      stands in no \<^verbatim>\<open>try\<close>; a cached value is returned only when it is truthy
      (\<^verbatim>\<open>if cached_results:\<close>)\<close>
  "main_search lib net order m0 m1 st query page =
     (let cache_key = main_get_cache_key lib query page
      in case main_get_from_cache lib (store st) m0 cache_key of
           Inl e \<Rightarrow> (Inl e, st)
         | Inr (cached_results, store0) \<Rightarrow>
             (let st0 = st\<lparr>store := store0\<rparr>
              in case cached_results of
                   Some v \<Rightarrow>
                     if truthy v then (Inr v, st0)
                     else main_search_miss lib net order m1 st0 cache_key query page
                 | None \<Rightarrow> main_search_miss lib net order m1 st0 cache_key query page))"

definition main_suggest_miss ::
  "pylib \<Rightarrow> network \<Rightarrow> moment \<Rightarrow> main_state \<Rightarrow> string \<Rightarrow> string \<Rightarrow> pyval \<times> main_state"
where
  \<comment> \<open>the \<^verbatim>\<open>try\<close> block of \<^verbatim>\<open>get_suggestions\<close> and the final \<^verbatim>\<open>return []\<close>: every
      exception in the block, that of the cache write too, is caught\<close>
  "main_suggest_miss lib net m1 st cache_key query =
     (case main_fetch_with_retry net ''https://suggestqueries.google.com/complete/search''
             [(''client'', PStr ''chrome''), (''q'', PStr query)] 2 of
        (Inl e, n) \<Rightarrow> (PList [], st\<lparr>requests := requests st + n\<rparr>)
      | (Inr resp, n) \<Rightarrow>
          (let st1 = st\<lparr>requests := requests st + n\<rparr>
           in if status_code resp = 200 then
                (case json_loads lib (resp_text resp) of
                   Inl e \<Rightarrow> (PList [], st1)
                 | Inr j \<Rightarrow>
                     (case index1 j of
                        Inl e \<Rightarrow> (PList [], st1)
                      | Inr suggestions \<Rightarrow>
                          (case main_save_to_cache lib (store st1) m1 cache_key suggestions 1800 of
                             Inl e \<Rightarrow> (PList [], st1)
                           | Inr store' \<Rightarrow> (suggestions, st1\<lparr>store := store'\<rparr>))))
              else (PList [], st1)))"

definition main_get_suggestions ::
  "pylib \<Rightarrow> network \<Rightarrow> moment \<Rightarrow> moment \<Rightarrow> main_state \<Rightarrow> string \<Rightarrow> (exn + pyval) \<times> main_state"
where
  \<comment> \<open>the cache read stands before the \<^verbatim>\<open>try\<close>, so its exception is raised\<close>
  "main_get_suggestions lib net m0 m1 st query =
     (if query = [] \<or> length query < 2 then (Inr (PList []), st)
      else
        (let cache_key = ''suggest_'' @ query
         in case main_get_from_cache lib (store st) m0 cache_key of
              Inl e \<Rightarrow> (Inl e, st)
            | Inr (cached_suggestions, store0) \<Rightarrow>
                (let st0 = st\<lparr>store := store0\<rparr>;
                     (res, st') = (case cached_suggestions of
                                     Some v \<Rightarrow>
                                       if truthy v then (v, st0)
                                       else main_suggest_miss lib net m1 st0 cache_key query
                                   | None \<Rightarrow> main_suggest_miss lib net m1 st0 cache_key query)
                 in (Inr res, st'))))"

text \<open>
  \<^verbatim>\<open>app.py\<close> keeps a plain dict from \<^verbatim>\<open>f"{query}_{page}"\<close> to the ranked list; an entry
  has no expiry and is never removed.
\<close>

record app_state =
  cache :: "string \<rightharpoonup> app_result list"
  app_requests :: nat

definition app_search_params :: "string \<Rightarrow> int \<Rightarrow> params" where
  "app_search_params query page =
     [(''q'', PStr query), (''start'', PInt ((page - 1) * 10)), (''num'', PInt 10),
      (''hl'', PStr ''en'')]"

definition app_search ::
  "pylib \<Rightarrow> network \<Rightarrow> app_state \<Rightarrow> string \<Rightarrow> int \<Rightarrow> app_result list \<times> app_state"
where
  \<comment> \<open>the \<^verbatim>\<open>except Exception\<close> of \<^verbatim>\<open>search\<close> turns every exception into \<^verbatim>\<open>[]\<close>\<close>
  "app_search lib net st query page =
     (let cache_key = query @ ''_'' @ str_of_int lib page
      in case cache st cache_key of
           Some cached \<Rightarrow> (cached, st)
         | None \<Rightarrow>
            (case app_fetch_with_retry net ''https://www.google.com/search''
                    (app_search_params query page) 5 of
               (Inl e, n) \<Rightarrow> ([], st\<lparr>app_requests := app_requests st + n\<rparr>)
             | (Inr None, n) \<Rightarrow> ([], st\<lparr>app_requests := app_requests st + n\<rparr>)
             | (Inr (Some resp), n) \<Rightarrow>
                 (case app_rank_results lib query (app_parse_results lib (resp_text resp)) of
                    Inl e \<Rightarrow> ([], st\<lparr>app_requests := app_requests st + n\<rparr>)
                  | Inr ranked_results \<Rightarrow>
                      (ranked_results,
                       st\<lparr>cache := (cache st)(cache_key \<mapsto> ranked_results),
                          app_requests := app_requests st + n\<rparr>))))"


section \<open>Sample inputs\<close>

text \<open>
  Concrete inputs for evaluating the model. \<open>sample_lib\<close> gives the library's values on
  the sample inputs used below: \<^verbatim>\<open>urlparse\<close> on two plain URLs, the MD5 digest of
  \<^verbatim>\<open>apple_1\<close>, \<^verbatim>\<open>json.loads\<close> and \<^verbatim>\<open>json.dumps\<close> on the empty list and two lists of
  numbers, the float sum of small whole numbers, and the element lists of three small
  pages (no snippet holds a date).
\<close>

definition page_g :: string where
  "page_g = ''<div class=g><h3>Apple</h3><a href=https://example.com/a>x</a><span class=snippet>A fruit</span></div>''"

definition page_g_bare :: string where
  "page_g_bare = ''<div class=g><h3>Apple</h3><a href=https://example.com/a>x</a></div>''"

definition page_t_bare :: string where
  "page_t_bare = ''<div class=tF2Cxc><h3>Apple</h3><a href=https://example.com/a>x</a></div>''"

definition sample_lib :: pylib where
  "sample_lib =
     \<lparr>netloc = (\<lambda>u. if u = ''https://example.com/a'' then Inr ''example.com''
                    else if u = ''https://www.example.org/a'' then Inr ''www.example.org''
                    else Inr []),
      re_search = (\<lambda>p t. None),
      iso_to_display = (\<lambda>m. None),
      days_old = (\<lambda>d. None),
      json_loads = (\<lambda>t. if t = ''[1, [2, 3]]'' then Inr (PList [PInt 1, PList [PInt 2, PInt 3]])
                        else if t = ''[2, 3]'' then Inr (PList [PInt 2, PInt 3])
                        else if t = ''[]'' then Inr (PList [])
                        else Inl (ValueError ''JSONDecodeError'')),
      json_dumps = (\<lambda>v. if v = PList [] then ''[]''
                        else if v = PList [PInt 2, PInt 3] then ''[2, 3]''
                        else ''null''),
      float_add = (\<lambda>a b. a + b),
      md5_hexdigest = (\<lambda>s. if s = ''apple_1'' then ''eb9a49c8f22178f8b561bebfb8aca564''
                           else ''d41d8cd98f00b204e9800998ecf8427e''),
      str_of_int = (\<lambda>i. if i = 1 then ''1'' else ''0''),
      g_results =
        (\<lambda>h. if h = page_g then
                [\<lparr>g_heading = Some ''Apple'', g_link = Some (Some ''https://example.com/a''),
                  g_snippet = Some ''A fruit''\<rparr>]
              else if h = page_g_bare then
                [\<lparr>g_heading = Some ''Apple'', g_link = Some (Some ''https://example.com/a''),
                  g_snippet = None\<rparr>]
              else []),
      tF2Cxc_divs =
        (\<lambda>h. if h = page_t_bare then
                [\<lparr>t_h3 = Some ''Apple'', t_link = Some (Some ''https://example.com/a''),
                  t_snippet = None, t_date = None\<rparr>]
              else []),
      kp_wholepage = (\<lambda>h. None)\<rparr>"

definition net_503 :: network where
  \<comment> \<open>every request is answered with status 503\<close>
  "net_503 = (\<lambda>u ps a. Responded \<lparr>status_code = 503, resp_text = []\<rparr>)"

definition net_down :: network where
  \<comment> \<open>every request times out\<close>
  "net_down = (\<lambda>u ps a. Raised ''timeout'')"

definition net_flaky :: network where
  \<comment> \<open>the first request times out, the later ones are answered with status 503\<close>
  "net_flaky = (\<lambda>u ps a. if a = 0 then Raised ''timeout''
                          else Responded \<lparr>status_code = 503, resp_text = []\<rparr>)"

definition net_page :: "string \<Rightarrow> network" where
  \<comment> \<open>every request is answered with status 200 and the given body\<close>
  "net_page body = (\<lambda>u ps a. Responded \<lparr>status_code = 200, resp_text = body\<rparr>)"

definition with_redis :: main_state where
  \<comment> \<open>the module as built, \<^verbatim>\<open>redis.Redis(...)\<close> having returned a client, with an empty
      database\<close>
  "with_redis = new_ImprovedSearch (Inr ()) Map.empty"

definition fresh_main :: main_state where
  \<comment> \<open>the module with \<^verbatim>\<open>redis_client = None\<close>, the constructor having raised\<close>
  "fresh_main = new_ImprovedSearch (Inl (RedisError ''ConnectionError'')) Map.empty"

definition up_at :: "real \<Rightarrow> moment" where
  \<comment> \<open>the clock at \<open>t\<close>, the Redis server answering\<close>
  "up_at t = \<lparr>clock = t, redis_up = True\<rparr>"

definition down_at :: "real \<Rightarrow> moment" where
  \<comment> \<open>the clock at \<open>t\<close>, the Redis server not reachable\<close>
  "down_at t = \<lparr>clock = t, redis_up = False\<rparr>"


definition sample_result :: "string \<Rightarrow> string \<Rightarrow> string \<Rightarrow> SearchResult" where
  "sample_result ti u sn = new_SearchResult ti u sn ''general'' None"

definition sample_dict :: "string \<Rightarrow> string \<Rightarrow> string \<Rightarrow> app_result" where
  "sample_dict ty ti sn =
     \<lparr>d_type = ty, d_title = ti, d_url = ''https://www.example.org/a'',
      d_display_url = ''https://www.example.org/a'', d_snippet = sn, d_favicon = [],
      d_category = ''general'', d_score = 0, d_date = None, d_description = [],
      d_image_url = None\<rparr>"


definition sample_results :: "SearchResult list" where
  "sample_results =
     [sample_result ''Pear'' ''https://example.com/a'' ''x'',
      sample_result ''Apple pie'' ''https://example.com/a'' ''y'',
      sample_result ''Plum'' ''https://example.com/a'' ''z'']"

definition sample_dicts :: "app_result list" where
  "sample_dicts =
     [sample_dict ''regular'' ''Pear'' ''x'', sample_dict ''info_box'' ''Apple'' [],
      sample_dict ''regular'' ''Apple pie'' ''y'', sample_dict ''regular'' ''Plum'' ''z'']"

section \<open>Reachable states of \<^verbatim>\<open>main.py\<close>\<close>

text \<open>
  A result record read by the caller has \<^verbatim>\<open>result['type'] == 'regular'\<close>; a value returned
  by \<^verbatim>\<open>search\<close> is all regular when it is a list of such dicts.
\<close>

definition is_regular :: "pyval \<Rightarrow> bool" where
  "is_regular d =
     (case d of PDict kvs \<Rightarrow> map_of kvs ''type'' = Some (PStr ''regular'') | _ \<Rightarrow> False)"

definition all_regular :: "pyval \<Rightarrow> bool" where
  "all_regular v = (case v of PList ds \<Rightarrow> list_all is_regular ds | _ \<Rightarrow> False)"

definition hexdigest :: "pylib \<Rightarrow> bool" where
  \<comment> \<open>what \<^verbatim>\<open>hashlib\<close> guarantees of \<^verbatim>\<open>hexdigest()\<close>: hexadecimal digits only\<close>
  "hexdigest lib = (\<forall>s. set (md5_hexdigest lib s) \<subseteq> set ''0123456789abcdef'')"

definition regular_codec :: "pylib \<Rightarrow> bool" where
  \<comment> \<open>\<^verbatim>\<open>json.loads(json.dumps(v))\<close> gives \<open>v\<close> back for the values cached here; the
      proofs need only that decoding an encoded list of regular dicts gives a list of
      regular dicts\<close>
  "regular_codec lib =
     (\<forall>v w. all_regular v \<longrightarrow> json_loads lib (json_dumps lib v) = Inr w \<longrightarrow> all_regular w)"

definition cache_inv :: "in_memory_cache \<Rightarrow> bool" where
  \<comment> \<open>every entry is a suggestion entry (its key starts with \<^verbatim>\<open>suggest_\<close>) or holds an
      all-regular result list\<close>
  "cache_inv c = (\<forall>k v e. c k = Some (v, e) \<longrightarrow> prefix ''suggest_'' k \<or> all_regular v)"

definition redis_inv :: "pylib \<Rightarrow> redis_db \<Rightarrow> bool" where
  \<comment> \<open>the same of the Redis database: what an entry decodes to is all regular\<close>
  "redis_inv lib db =
     (\<forall>k s e. db k = Some (s, e) \<longrightarrow>
        prefix ''suggest_'' k \<or> (\<forall>w. json_loads lib s = Inr w \<longrightarrow> all_regular w))"

definition store_inv :: "pylib \<Rightarrow> cache_store \<Rightarrow> bool" where
  "store_inv lib s = (case s of Redis db \<Rightarrow> redis_inv lib db | InMemory c \<Rightarrow> cache_inv c)"

text \<open>
  The states of the one \<^verbatim>\<open>ImprovedSearch\<close> object: the state after the module is loaded
  (with the Redis client or without, the database holding nothing yet), and the state
  after any call of \<^verbatim>\<open>search\<close> or \<^verbatim>\<open>get_suggestions\<close> in such a state, whatever the
  network, the scheduler, the clock and the Redis server's availability are, and
  however old the dates have become (\<open>days_old\<close>). Only this object writes to the
  database.
\<close>

inductive reachable :: "pylib \<Rightarrow> main_state \<Rightarrow> bool" for lib where
  fresh: "reachable lib (new_ImprovedSearch constructed Map.empty)"
| search:
    "reachable lib st \<Longrightarrow>
     reachable lib (snd (main_search (lib\<lparr>days_old := d\<rparr>) net order m0 m1 st query page))"
| suggest:
    "reachable lib st \<Longrightarrow>
     reachable lib (snd (main_get_suggestions (lib\<lparr>days_old := d\<rparr>) net m0 m1 st query))"

section \<open>Categorizer: the category is in the enumeration\<close>

lemma first_category_member:
  "first_category cats d t = ''general'' \<or> first_category cats d t \<in> fst ` set cats"
  by (induction cats d t rule: first_category.induct) auto

lemma first_category_no_hit:
  "\<forall>(c, kws) \<in> set cats. \<not> keyword_hit kws d t \<Longrightarrow> first_category cats d t = ''general''"
  by (induction cats d t rule: first_category.induct) auto

lemma main_categories_enum: "fst ` set main_categories \<subseteq> set category_enum"
  by (simp add: main_categories_def category_enum_def)

lemma app_categories_enum: "fst ` set app_categories \<subseteq> set category_enum"
  by (simp add: app_categories_def category_enum_def)

lemma general_enum: "''general'' \<in> set category_enum"
  by (simp add: category_enum_def)

lemma first_category_in:
  assumes "fst ` set cats \<subseteq> E" and "''general'' \<in> E"
  shows "first_category cats d t \<in> E"
proof (rule disjE [OF first_category_member [of cats d t]])
  assume "first_category cats d t = ''general''"
  with assms(2) show ?thesis by (simp only:)
next
  assume "first_category cats d t \<in> fst ` set cats"
  then show ?thesis using assms(1) by (rule rev_subsetD)
qed

lemma main_first_category_enum: "first_category main_categories d t \<in> set category_enum"
  by (rule first_category_in [OF main_categories_enum general_enum])

lemma app_first_category_enum: "first_category app_categories d t \<in> set category_enum"
  by (rule first_category_in [OF app_categories_enum general_enum])

text \<open>
  Claim C6. \<^verbatim>\<open>_categorize_result\<close> is a function of its arguments (and of \<^verbatim>\<open>urlparse\<close>): in
  both programs a call either ends with the exception \<^verbatim>\<open>urlparse\<close> raised or returns a
  category of the enumeration news, shopping, social, video, academic, official,
  forums, tech, general; and when no keyword of any category occurs in the domain or
  in the text, the category is general.
\<close>

theorem categorize_in_enumeration:
  "(case main_categorize_result lib u ti sn of
      Inl e \<Rightarrow> netloc lib u = Inl e
    | Inr c \<Rightarrow> c \<in> set category_enum) \<and>
   (case app_categorize_result lib u ti of
      Inl e \<Rightarrow> netloc lib u = Inl e
    | Inr c \<Rightarrow> c \<in> set category_enum) \<and>
   (\<forall>nl. netloc lib u = Inr nl \<longrightarrow>
      (\<forall>(c, kws) \<in> set main_categories.
          \<not> keyword_hit kws (lower nl) (lower ti @ '' '' @ lower sn)) \<longrightarrow>
      main_categorize_result lib u ti sn = Inr ''general'') \<and>
   (\<forall>nl. netloc lib u = Inr nl \<longrightarrow>
      (\<forall>(c, kws) \<in> set app_categories. \<not> keyword_hit kws (lower nl) (lower ti)) \<longrightarrow>
      app_categorize_result lib u ti = Inr ''general'')"
proof (intro conjI allI impI)
  show "case main_categorize_result lib u ti sn of
      Inl e \<Rightarrow> netloc lib u = Inl e
    | Inr c \<Rightarrow> c \<in> set category_enum"
    by (simp add: main_categorize_result_def main_first_category_enum split: sum.splits)
  show "case app_categorize_result lib u ti of
      Inl e \<Rightarrow> netloc lib u = Inl e
    | Inr c \<Rightarrow> c \<in> set category_enum"
    by (simp add: app_categorize_result_def app_first_category_enum split: sum.splits)
next
  fix nl
  assume "netloc lib u = Inr nl"
    and "\<forall>(c, kws) \<in> set main_categories.
          \<not> keyword_hit kws (lower nl) (lower ti @ '' '' @ lower sn)"
  then show "main_categorize_result lib u ti sn = Inr ''general''"
    by (simp add: main_categorize_result_def first_category_no_hit)
next
  fix nl
  assume "netloc lib u = Inr nl"
    and "\<forall>(c, kws) \<in> set app_categories. \<not> keyword_hit kws (lower nl) (lower ti)"
  then show "app_categorize_result lib u ti = Inr ''general''"
    by (simp add: app_categorize_result_def first_category_no_hit)
qed

theorem categorize_in_enumeration_witness:
  "main_categorize_result sample_lib ''https://example.com/a'' ''Hello'' ''World'' = Inr ''general'' \<and>
   app_categorize_result sample_lib ''https://example.com/a'' ''Hello'' = Inr ''general'' \<and>
   ''general'' \<in> set category_enum"
proof -
  have n: "netloc sample_lib ''https://example.com/a'' = Inr ''example.com''"
    by (simp add: sample_lib_def)
  have h1: "\<forall>(c, kws) \<in> set main_categories.
      \<not> keyword_hit kws (lower ''example.com'') (lower ''Hello'' @ '' '' @ lower ''World'')"
    by code_simp
  have h2: "\<forall>(c, kws) \<in> set app_categories.
      \<not> keyword_hit kws (lower ''example.com'') (lower ''Hello'')"
    by code_simp
  from categorize_in_enumeration [of sample_lib "''https://example.com/a''" "''Hello''" "''World''"]
    n h1 h2 general_enum
  show ?thesis by simp
qed

section \<open>Fetcher: what happens when the retries are used up\<close>

lemma main_attempts_all_non200:
  "\<forall>a \<in> set as. \<exists>r. get a = Responded r \<and> status_code r \<noteq> 200 \<Longrightarrow>
   main_fetch_attempts u n get as le k =
     ((case le of Some e \<Rightarrow> Inl e | None \<Rightarrow> Inl (FetchFailed u n)), k + length as)"
  by (induction as arbitrary: le k) (auto split: option.splits)

lemma app_attempts_all_non200:
  "\<forall>a \<in> set as. \<exists>r. get a = Responded r \<and> status_code r \<noteq> 200 \<Longrightarrow>
   app_fetch_attempts n get as k = (Inr None, k + length as)"
  by (induction as arbitrary: k) auto

lemma app_attempts_raise:
  "fst (app_fetch_attempts n get as k) = Inl e \<Longrightarrow>
   \<exists>a \<in> set as. \<exists>m. int a = int n - 1 \<and> get a = Raised m \<and> e = RequestException m"
  by (induction as arbitrary: k) (auto split: outcome.splits if_splits)

lemma main_attempts_raise:
  "fst (main_fetch_attempts u n get as le k) = Inl (RequestException m) \<Longrightarrow>
   le = Some (RequestException m) \<or> (\<exists>a \<in> set as. get a = Raised m)"
  by (induction as arbitrary: le k) (auto split: outcome.splits if_splits option.splits)

lemma main_attempts_exhausted:
  "\<forall>a \<in> set as. \<forall>r. get a = Responded r \<longrightarrow> status_code r \<noteq> 200 \<Longrightarrow>
   \<exists>e. fst (main_fetch_attempts u n get as le k) = Inl e"
  by (induction as arbitrary: le k) (auto split: outcome.splits if_splits option.splits)

lemma main_attempts_ok:
  "fst (main_fetch_attempts u n get as le k) = Inr r \<Longrightarrow> status_code r = 200"
  by (induction as arbitrary: le k) (auto split: outcome.splits if_splits option.splits)

lemma main_attempts_last_raise:
  assumes "\<forall>x \<in> set xs. \<forall>r. get x = Responded r \<longrightarrow> status_code r \<noteq> 200"
    and "get a = Raised m"
    and "\<forall>y \<in> set ys. \<exists>r. get y = Responded r \<and> status_code r \<noteq> 200"
  shows "fst (main_fetch_attempts u n get (xs @ a # ys) le k) = Inl (RequestException m)"
  using assms(1)
proof (induction xs arbitrary: le k)
  case Nil
  show ?case using assms(2) by (simp add: main_attempts_all_non200 [OF assms(3)])
next
  case (Cons x xs)
  then show ?case by (cases "get x") auto
qed

lemma app_attempts_skip:
  "\<forall>x \<in> set xs. (\<forall>r. get x = Responded r \<longrightarrow> status_code r \<noteq> 200) \<and> int x \<noteq> int n - 1 \<Longrightarrow>
   app_fetch_attempts n get (xs @ ys) k = app_fetch_attempts n get ys (k + length xs)"
proof (induction xs arbitrary: k)
  case Nil
  show ?case by simp
next
  case (Cons x xs)
  then show ?case by (cases "get x") auto
qed

lemma upt_split_at: "a < n \<Longrightarrow> [0..<n] = [0..<a] @ a # [Suc a..<n]"
  using upt_add_eq_append [of 0 a "n - a"] by (simp add: upt_conv_Cons)

lemma main_attempts_found:
  "fst (main_fetch_attempts u n get as le k) = Inr r \<Longrightarrow> \<exists>a \<in> set as. get a = Responded r"
  by (induction as arbitrary: le k) (auto split: outcome.splits if_splits option.splits)

text \<open>
  Claim C2, as the code has it. The retries are used up when no attempt is answered
  with status 200.
  \<^item> The fetcher of \<^verbatim>\<open>app.py\<close> then raises the network exception of its last attempt, if
    that attempt raised one, and returns \<^verbatim>\<open>None\<close> (no response) otherwise; so it returns
    \<^verbatim>\<open>None\<close> when every attempt got a status other than 200, and any exception it
    raises is the network exception of the last attempt.
  \<^item> The fetcher of \<^verbatim>\<open>main.py\<close> then always raises: the network exception of the last
    attempt that raised one, and \<^verbatim>\<open>Exception("Failed to fetch ...")\<close> when no attempt
    raised one. It never returns "no response": what it returns is the response of
    an attempt, with status 200.
\<close>

theorem fetch_exhausted_retries:
  "((\<forall>a<n. \<exists>r. net u ps a = Responded r \<and> status_code r \<noteq> 200) \<longrightarrow>
      fst (app_fetch_with_retry net u ps n) = Inr None \<and>
      fst (main_fetch_with_retry net u ps n) = Inl (FetchFailed u n)) \<and>
   (\<forall>e. fst (app_fetch_with_retry net u ps n) = Inl e \<longrightarrow>
      0 < n \<and> (\<exists>m. net u ps (n - 1) = Raised m \<and> e = RequestException m)) \<and>
   (\<forall>m. fst (main_fetch_with_retry net u ps n) = Inl (RequestException m) \<longrightarrow>
      (\<exists>a<n. net u ps a = Raised m)) \<and>
   ((\<forall>a<n. \<forall>r. net u ps a = Responded r \<longrightarrow> status_code r \<noteq> 200) \<longrightarrow>
      (\<exists>e. fst (main_fetch_with_retry net u ps n) = Inl e)) \<and>
   ((\<forall>a<n. \<forall>r. net u ps a = Responded r \<longrightarrow> status_code r \<noteq> 200) \<longrightarrow>
      (\<forall>a m. a < n \<longrightarrow> net u ps a = Raised m \<longrightarrow>
         (\<forall>b m'. a < b \<longrightarrow> b < n \<longrightarrow> net u ps b \<noteq> Raised m') \<longrightarrow>
         fst (main_fetch_with_retry net u ps n) = Inl (RequestException m))) \<and>
   (\<forall>r. fst (main_fetch_with_retry net u ps n) = Inr r \<longrightarrow>
      status_code r = 200 \<and> (\<exists>a<n. net u ps a = Responded r)) \<and>
   ((\<forall>a<n. \<forall>r. net u ps a = Responded r \<longrightarrow> status_code r \<noteq> 200) \<longrightarrow>
      (\<forall>m. 0 < n \<longrightarrow> net u ps (n - 1) = Raised m \<longrightarrow>
         fst (app_fetch_with_retry net u ps n) = Inl (RequestException m)) \<and>
      (n = 0 \<or> (\<exists>r. net u ps (n - 1) = Responded r) \<longrightarrow>
         fst (app_fetch_with_retry net u ps n) = Inr None))"
proof (intro conjI allI impI)
  assume h: "\<forall>a<n. \<exists>r. net u ps a = Responded r \<and> status_code r \<noteq> 200"
  then have all: "\<forall>a \<in> set [0..<n]. \<exists>r. net u ps a = Responded r \<and> status_code r \<noteq> 200"
    by simp
  show "fst (app_fetch_with_retry net u ps n) = Inr None"
    by (simp add: app_fetch_with_retry_def app_attempts_all_non200 [OF all])
  show "fst (main_fetch_with_retry net u ps n) = Inl (FetchFailed u n)"
    by (simp add: main_fetch_with_retry_def main_attempts_all_non200 [OF all])
next
  fix e
  assume "fst (app_fetch_with_retry net u ps n) = Inl e"
  then obtain a m where a: "a \<in> set [0..<n]" "int a = int n - 1"
      "net u ps a = Raised m" "e = RequestException m"
    unfolding app_fetch_with_retry_def using app_attempts_raise by blast
  then have "0 < n" "a = n - 1" by auto
  with a show "0 < n" and "\<exists>m. net u ps (n - 1) = Raised m \<and> e = RequestException m"
    by auto
next
  fix m
  assume "fst (main_fetch_with_retry net u ps n) = Inl (RequestException m)"
  then show "\<exists>a<n. net u ps a = Raised m"
    unfolding main_fetch_with_retry_def
    using main_attempts_raise [of u n "net u ps" "[0..<n]" None 0 m]
    by auto
next
  assume "\<forall>a<n. \<forall>r. net u ps a = Responded r \<longrightarrow> status_code r \<noteq> 200"
  then show "\<exists>e. fst (main_fetch_with_retry net u ps n) = Inl e"
    unfolding main_fetch_with_retry_def using main_attempts_exhausted [of "[0..<n]" "net u ps"]
    by simp
next
  fix a m
  assume ns: "\<forall>a<n. \<forall>r. net u ps a = Responded r \<longrightarrow> status_code r \<noteq> 200"
    and a: "a < n" and m: "net u ps a = Raised m"
    and last: "\<forall>b m'. a < b \<longrightarrow> b < n \<longrightarrow> net u ps b \<noteq> Raised m'"
  have xs: "\<forall>x \<in> set [0..<a]. \<forall>r. net u ps x = Responded r \<longrightarrow> status_code r \<noteq> 200"
  proof
    fix x assume "x \<in> set [0..<a]"
    then have "x < n" using a by simp
    with ns show "\<forall>r. net u ps x = Responded r \<longrightarrow> status_code r \<noteq> 200" by blast
  qed
  have ys: "\<forall>y \<in> set [Suc a..<n]. \<exists>r. net u ps y = Responded r \<and> status_code r \<noteq> 200"
  proof
    fix y assume "y \<in> set [Suc a..<n]"
    then have y: "a < y" "y < n" by simp_all
    with last have "\<forall>m'. net u ps y \<noteq> Raised m'" by blast
    then obtain r where "net u ps y = Responded r" by (cases "net u ps y") auto
    with ns y show "\<exists>r. net u ps y = Responded r \<and> status_code r \<noteq> 200" by blast
  qed
  show "fst (main_fetch_with_retry net u ps n) = Inl (RequestException m)"
    unfolding main_fetch_with_retry_def upt_split_at [OF a]
    by (rule main_attempts_last_raise [OF xs m ys])
next
  fix r
  assume r: "fst (main_fetch_with_retry net u ps n) = Inr r"
  then show "status_code r = 200"
    unfolding main_fetch_with_retry_def by (rule main_attempts_ok)
  from r show "\<exists>a<n. net u ps a = Responded r"
    unfolding main_fetch_with_retry_def using main_attempts_found [of u n "net u ps" "[0..<n]" None 0 r]
    by auto
next
  fix m
  assume ns: "\<forall>a<n. \<forall>r. net u ps a = Responded r \<longrightarrow> status_code r \<noteq> 200"
    and n: "0 < n" and m: "net u ps (n - 1) = Raised m"
  have xs: "\<forall>x \<in> set [0..<n - 1].
      (\<forall>r. net u ps x = Responded r \<longrightarrow> status_code r \<noteq> 200) \<and> int x \<noteq> int n - 1"
  proof
    fix x assume "x \<in> set [0..<n - 1]"
    then have x: "x < n - 1" by simp
    then have "x < n" by simp
    with ns have "\<forall>r. net u ps x = Responded r \<longrightarrow> status_code r \<noteq> 200" by blast
    moreover from x have "int x \<noteq> int n - 1" by simp
    ultimately show "(\<forall>r. net u ps x = Responded r \<longrightarrow> status_code r \<noteq> 200) \<and> int x \<noteq> int n - 1"
      by (rule conjI)
  qed
  have split: "[0..<n] = [0..<n - 1] @ [n - 1]"
    using upt_split_at [of "n - 1" n] n by simp
  have skip: "app_fetch_attempts n (net u ps) [0..<n] 0 =
      app_fetch_attempts n (net u ps) [n - 1] (0 + length [0..<n - 1])"
    unfolding split by (rule app_attempts_skip [OF xs])
  have "int (n - 1) = int n - 1" using n by simp
  with m have "fst (app_fetch_attempts n (net u ps) [n - 1] (0 + length [0..<n - 1])) =
      Inl (RequestException m)"
    by simp
  then show "fst (app_fetch_with_retry net u ps n) = Inl (RequestException m)"
    unfolding app_fetch_with_retry_def skip .
next
  assume ns: "\<forall>a<n. \<forall>r. net u ps a = Responded r \<longrightarrow> status_code r \<noteq> 200"
    and l: "n = 0 \<or> (\<exists>r. net u ps (n - 1) = Responded r)"
  show "fst (app_fetch_with_retry net u ps n) = Inr None"
  proof (cases "n = 0")
    case True
    then show ?thesis by (simp add: app_fetch_with_retry_def)
  next
    case False
    with l obtain r where r: "net u ps (n - 1) = Responded r" by blast
    have "n - 1 < n" using False by simp
    with ns r have r200: "status_code r \<noteq> 200" by blast
    have xs: "\<forall>x \<in> set [0..<n - 1].
        (\<forall>r. net u ps x = Responded r \<longrightarrow> status_code r \<noteq> 200) \<and> int x \<noteq> int n - 1"
  proof
    fix x assume "x \<in> set [0..<n - 1]"
    then have x: "x < n - 1" by simp
    then have "x < n" by simp
    with ns have "\<forall>r. net u ps x = Responded r \<longrightarrow> status_code r \<noteq> 200" by blast
    moreover from x have "int x \<noteq> int n - 1" by simp
    ultimately show "(\<forall>r. net u ps x = Responded r \<longrightarrow> status_code r \<noteq> 200) \<and> int x \<noteq> int n - 1"
      by (rule conjI)
  qed
    have split: "[0..<n] = [0..<n - 1] @ [n - 1]"
      using upt_split_at [of "n - 1" n] False by simp
    have skip: "app_fetch_attempts n (net u ps) [0..<n] 0 =
        app_fetch_attempts n (net u ps) [n - 1] (0 + length [0..<n - 1])"
      unfolding split by (rule app_attempts_skip [OF xs])
    from r r200 have "fst (app_fetch_attempts n (net u ps) [n - 1] (0 + length [0..<n - 1])) =
        Inr None"
      by simp
    then show ?thesis
      unfolding app_fetch_with_retry_def skip .
  qed
qed

theorem fetch_exhausted_retries_witness:
  "fst (app_fetch_with_retry net_503 ''https://www.google.com/search'' [] 5) = Inr None \<and>
   fst (main_fetch_with_retry net_503 ''https://www.google.com/search'' [] 2) =
     Inl (FetchFailed ''https://www.google.com/search'' 2) \<and>
   fst (main_fetch_with_retry net_flaky ''https://www.google.com/search'' [] 2) =
     Inl (RequestException ''timeout'') \<and>
   fst (app_fetch_with_retry net_flaky ''https://www.google.com/search'' [] 5) = Inr None \<and>
   fst (app_fetch_with_retry net_down ''https://www.google.com/search'' [] 5) =
     Inl (RequestException ''timeout'')"
proof -
  have a: "\<forall>a<5. \<exists>r. net_503 ''https://www.google.com/search'' [] a = Responded r \<and>
      status_code r \<noteq> 200"
    by (simp add: net_503_def)
  have b: "\<forall>a<2. \<exists>r. net_503 ''https://www.google.com/search'' [] a = Responded r \<and>
      status_code r \<noteq> 200"
    by (simp add: net_503_def)
  have c: "\<forall>a<2. \<forall>r. net_flaky ''https://www.google.com/search'' [] a = Responded r \<longrightarrow>
      status_code r \<noteq> 200"
    by (auto simp: net_flaky_def)
  have c0: "net_flaky ''https://www.google.com/search'' [] 0 = Raised ''timeout''"
    by (simp add: net_flaky_def)
  have c1: "\<forall>b m'. 0 < b \<longrightarrow> b < 2 \<longrightarrow>
      net_flaky ''https://www.google.com/search'' [] b \<noteq> Raised m'"
    by (simp add: net_flaky_def)
  have d: "\<forall>a<5. \<forall>r. net_flaky ''https://www.google.com/search'' [] a = Responded r \<longrightarrow>
      status_code r \<noteq> 200"
    by (auto simp: net_flaky_def)
  have d4: "\<exists>r. net_flaky ''https://www.google.com/search'' [] (5 - 1) = Responded r"
    by (simp add: net_flaky_def)
  have e: "\<forall>a<5. \<forall>r. net_down ''https://www.google.com/search'' [] a = Responded r \<longrightarrow>
      status_code r \<noteq> 200"
    by (simp add: net_down_def)
  have e4: "net_down ''https://www.google.com/search'' [] (5 - 1) = Raised ''timeout''"
    by (simp add: net_down_def)
  note t5 = fetch_exhausted_retries [of 5 _ "''https://www.google.com/search''" "[]"]
  note t2 = fetch_exhausted_retries [of 2 _ "''https://www.google.com/search''" "[]"]
  have "fst (app_fetch_with_retry net_503 ''https://www.google.com/search'' [] 5) = Inr None"
    using t5 [of net_503] a by blast
  moreover have "fst (main_fetch_with_retry net_503 ''https://www.google.com/search'' [] 2) =
     Inl (FetchFailed ''https://www.google.com/search'' 2)"
    using t2 [of net_503] b by blast
  moreover have "fst (main_fetch_with_retry net_flaky ''https://www.google.com/search'' [] 2) =
     Inl (RequestException ''timeout'')"
    using t2 [of net_flaky] c c0 c1 by (meson zero_less_numeral)
  moreover have "fst (app_fetch_with_retry net_flaky ''https://www.google.com/search'' [] 5) = Inr None"
    using t5 [of net_flaky] d d4 by blast
  moreover have "fst (app_fetch_with_retry net_down ''https://www.google.com/search'' [] 5) =
     Inl (RequestException ''timeout'')"
    using t5 [of net_down] e e4 by (meson zero_less_numeral)
  ultimately show ?thesis by (intro conjI)
qed

text \<open>
  The claim as the specification words it fails on \<^verbatim>\<open>main.py\<close>: two attempts answered
  with status 503 and no network exception end in a raised exception, not in
  "no response".
\<close>

theorem fetch_non200_counterexample:
  "fst (main_fetch_with_retry net_503 ''https://www.google.com/search''
          (main_search_params ''apple'' 1) 2)
     = Inl (FetchFailed ''https://www.google.com/search'' 2)"
  by (simp add: main_fetch_with_retry_def net_503_def upt_rec)

section \<open>Cache store: round trip and expiry\<close>




section \<open>Ranker: stable descending sort, info boxes first\<close>

lemma for_each_Inr:
  "for_each f xs = Inr ys \<Longrightarrow> list_all2 (\<lambda>x y. f x = Inr y) xs ys"
proof (induction xs arbitrary: ys)
  case Nil
  then show ?case by simp
next
  case (Cons x xs)
  from Cons.prems obtain y ys' where "f x = Inr y" "for_each f xs = Inr ys'" "ys = y # ys'"
    by (auto split: sum.splits)
  with Cons.IH show ?case by simp
qed

lemma for_each_returns:
  "\<forall>x \<in> set xs. \<exists>y. f x = Inr y \<Longrightarrow> \<exists>ys. for_each f xs = Inr ys"
  by (induction xs) (auto split: sum.splits)

lemma sorted_reverse_descending: "sorted_wrt (\<lambda>a b. key b \<le> key a) (sorted_reverse key xs)"
proof -
  have "sorted (map (\<lambda>x. - key x) (sort_key (\<lambda>x. - key x) xs))"
    by (rule sorted_sort_key)
  then show ?thesis
    by (simp add: sorted_reverse_def sorted_map)
qed

lemma sorted_reverse_stable:
  "filter (\<lambda>x. key x = k) (sorted_reverse key xs) = filter (\<lambda>x. key x = k) xs"
proof -
  have "filter (\<lambda>x. - key x = - k) (sort_key (\<lambda>x. - key x) xs) = filter (\<lambda>x. - key x = - k) xs"
    by (rule sort_key_stable)
  then show ?thesis
    by (simp add: sorted_reverse_def)
qed

lemma set_sorted_reverse: "set (sorted_reverse key xs) = set xs"
  by (simp add: sorted_reverse_def)

lemma main_rank_returns:
  assumes "\<forall>r \<in> set rs. \<exists>d. netloc lib (url r) = Inr d"
  shows "\<exists>scored. for_each (\<lambda>r. case main_score lib q r of Inl e \<Rightarrow> Inl e
                                  | Inr s \<Rightarrow> Inr (r\<lparr>score := s\<rparr>)) rs = Inr scored"
proof (rule for_each_returns, rule ballI)
  fix r assume "r \<in> set rs"
  with assms obtain d where "netloc lib (url r) = Inr d" by blast
  then show "\<exists>y. (case main_score lib q r of Inl e \<Rightarrow> Inl e | Inr s \<Rightarrow> Inr (r\<lparr>score := s\<rparr>)) = Inr y"
    by (simp add: main_score_def Let_def)
qed

lemma app_rank_returns:
  assumes "\<forall>r \<in> set rs. d_type r \<noteq> ''info_box'' \<longrightarrow> (\<exists>d. netloc lib (d_url r) = Inr d)"
  shows "\<exists>scored. for_each (app_rank_one lib q) rs = Inr scored"
proof (rule for_each_returns, rule ballI)
  fix r assume r: "r \<in> set rs"
  show "\<exists>y. app_rank_one lib q r = Inr y"
  proof (cases "d_type r = ''info_box''")
    case True
    then show ?thesis by (simp add: app_rank_one_def)
  next
    case False
    with assms r obtain d where "netloc lib (d_url r) = Inr d" by blast
    with False show ?thesis by (simp add: app_rank_one_def app_score_def Let_def)
  qed
qed

lemma main_scored_shape:
  "list_all2 (\<lambda>r r'. (case main_score lib q r of Inl e \<Rightarrow> Inl e | Inr s \<Rightarrow> Inr (r\<lparr>score := s\<rparr>)) = Inr r') rs scored
   \<Longrightarrow> list_all2 (\<lambda>r r'. main_score lib q r = Inr (score r') \<and> r' = r\<lparr>score := score r'\<rparr>) rs scored"
  by (erule list_all2_mono) (auto split: sum.splits)

lemma app_rank_one_type: "app_rank_one lib q r = Inr r' \<Longrightarrow> d_type r' = d_type r"
  by (auto simp: app_rank_one_def split: if_splits sum.splits)

text \<open>
  Claim C3. For every query and every input list, in both programs: the regular
  results in the output of \<^verbatim>\<open>_rank_results\<close> are in descending order of score, and for
  every score the regular results with that score are the scored inputs with that
  score, in their input order: the sort is stable. The scored inputs are the inputs,
  in order, each with its score assigned. The ranker returns whenever \<^verbatim>\<open>urlparse\<close>
  accepts the URLs of the results it scores.
\<close>

theorem rank_is_stable_sort:
  "(\<forall>out. main_rank_results lib q rs = Inr out \<longrightarrow>
      (\<exists>scored.
         list_all2 (\<lambda>r r'. main_score lib q r = Inr (score r') \<and> r' = r\<lparr>score := score r'\<rparr>)
           rs scored \<and>
         sorted_wrt (\<lambda>a b. score b \<le> score a) out \<and>
         (\<forall>k. filter (\<lambda>r. score r = k) out = filter (\<lambda>r. score r = k) scored))) \<and>
   ((\<forall>r \<in> set rs. \<exists>d. netloc lib (url r) = Inr d) \<longrightarrow>
      (\<exists>out. main_rank_results lib q rs = Inr out)) \<and>
   (\<forall>out. app_rank_results lib q ds = Inr out \<longrightarrow>
      (\<exists>scored.
         list_all2 (\<lambda>r r'. app_rank_one lib q r = Inr r') ds scored \<and>
         sorted_wrt (\<lambda>a b. d_score b \<le> d_score a) (filter (\<lambda>r. d_type r = ''regular'') out) \<and>
         (\<forall>k. filter (\<lambda>r. d_score r = k) (filter (\<lambda>r. d_type r = ''regular'') out) =
              filter (\<lambda>r. d_score r = k) (filter (\<lambda>r. d_type r = ''regular'') scored)))) \<and>
   ((\<forall>r \<in> set ds. d_type r \<noteq> ''info_box'' \<longrightarrow> (\<exists>d. netloc lib (d_url r) = Inr d)) \<longrightarrow>
      (\<exists>out. app_rank_results lib q ds = Inr out))"
proof (intro conjI allI impI)
  fix out
  assume "main_rank_results lib q rs = Inr out"
  then obtain scored where
    sc: "for_each (\<lambda>r. case main_score lib q r of Inl e \<Rightarrow> Inl e
                        | Inr s \<Rightarrow> Inr (r\<lparr>score := s\<rparr>)) rs = Inr scored"
    and out: "out = sorted_reverse score scored"
    by (auto simp: main_rank_results_def split: sum.splits)
  have "list_all2 (\<lambda>r r'. main_score lib q r = Inr (score r') \<and> r' = r\<lparr>score := score r'\<rparr>)
          rs scored"
    using sc by (simp add: for_each_Inr main_scored_shape)
  moreover have "sorted_wrt (\<lambda>a b. score b \<le> score a) out"
    by (simp add: out sorted_reverse_descending)
  moreover have "\<forall>k. filter (\<lambda>r. score r = k) out = filter (\<lambda>r. score r = k) scored"
    by (simp add: out sorted_reverse_stable)
  ultimately show "\<exists>scored.
         list_all2 (\<lambda>r r'. main_score lib q r = Inr (score r') \<and> r' = r\<lparr>score := score r'\<rparr>)
           rs scored \<and>
         sorted_wrt (\<lambda>a b. score b \<le> score a) out \<and>
         (\<forall>k. filter (\<lambda>r. score r = k) out = filter (\<lambda>r. score r = k) scored)"
    by (intro exI [of _ scored] conjI)
next
  assume "\<forall>r \<in> set rs. \<exists>d. netloc lib (url r) = Inr d"
  then obtain scored where
    "for_each (\<lambda>r. case main_score lib q r of Inl e \<Rightarrow> Inl e
                    | Inr s \<Rightarrow> Inr (r\<lparr>score := s\<rparr>)) rs = Inr scored"
    using main_rank_returns by blast
  then show "\<exists>out. main_rank_results lib q rs = Inr out"
    by (simp add: main_rank_results_def)
next
  fix out
  assume "app_rank_results lib q ds = Inr out"
  then obtain scored where sc: "for_each (app_rank_one lib q) ds = Inr scored"
    and out: "out = filter (\<lambda>r. d_type r = ''info_box'') scored
                @ sorted_reverse d_score (filter (\<lambda>r. d_type r = ''regular'') scored)"
    by (auto simp: app_rank_results_def split: sum.splits)
  define regs where "regs = sorted_reverse d_score (filter (\<lambda>r. d_type r = ''regular'') scored)"
  have "filter (\<lambda>r. d_type r = ''regular'') regs = regs"
    by (auto simp: regs_def set_sorted_reverse intro: filter_True)
  moreover have
    "filter (\<lambda>r. d_type r = ''regular'') (filter (\<lambda>r. d_type r = ''info_box'') scored) = []"
    by (auto simp: filter_empty_conv)
  ultimately have freg: "filter (\<lambda>r. d_type r = ''regular'') out = regs"
    by (simp add: out regs_def)
  have "list_all2 (\<lambda>r r'. app_rank_one lib q r = Inr r') ds scored"
    using sc by (simp add: for_each_Inr)
  moreover have "sorted_wrt (\<lambda>a b. d_score b \<le> d_score a) (filter (\<lambda>r. d_type r = ''regular'') out)"
    by (simp add: freg regs_def sorted_reverse_descending)
  moreover have "\<forall>k. filter (\<lambda>r. d_score r = k) (filter (\<lambda>r. d_type r = ''regular'') out) =
              filter (\<lambda>r. d_score r = k) (filter (\<lambda>r. d_type r = ''regular'') scored)"
    by (simp add: freg regs_def sorted_reverse_stable)
  ultimately show "\<exists>scored.
         list_all2 (\<lambda>r r'. app_rank_one lib q r = Inr r') ds scored \<and>
         sorted_wrt (\<lambda>a b. d_score b \<le> d_score a) (filter (\<lambda>r. d_type r = ''regular'') out) \<and>
         (\<forall>k. filter (\<lambda>r. d_score r = k) (filter (\<lambda>r. d_type r = ''regular'') out) =
              filter (\<lambda>r. d_score r = k) (filter (\<lambda>r. d_type r = ''regular'') scored))"
    by (intro exI [of _ scored] conjI)
next
  assume "\<forall>r \<in> set ds. d_type r \<noteq> ''info_box'' \<longrightarrow> (\<exists>d. netloc lib (d_url r) = Inr d)"
  then obtain scored where "for_each (app_rank_one lib q) ds = Inr scored"
    using app_rank_returns by blast
  then show "\<exists>out. app_rank_results lib q ds = Inr out"
    by (simp add: app_rank_results_def)
qed

theorem rank_is_stable_sort_witness:
  "(\<exists>out scored. main_rank_results sample_lib ''apple'' sample_results = Inr out \<and>
      list_all2 (\<lambda>r r'. main_score sample_lib ''apple'' r = Inr (score r') \<and>
                   r' = r\<lparr>score := score r'\<rparr>) sample_results scored \<and>
      sorted_wrt (\<lambda>a b. score b \<le> score a) out \<and>
      (\<forall>k. filter (\<lambda>r. score r = k) out = filter (\<lambda>r. score r = k) scored)) \<and>
   (\<exists>out scored. app_rank_results sample_lib ''apple'' sample_dicts = Inr out \<and>
      list_all2 (\<lambda>r r'. app_rank_one sample_lib ''apple'' r = Inr r') sample_dicts scored \<and>
      sorted_wrt (\<lambda>a b. d_score b \<le> d_score a) (filter (\<lambda>r. d_type r = ''regular'') out) \<and>
      (\<forall>k. filter (\<lambda>r. d_score r = k) (filter (\<lambda>r. d_type r = ''regular'') out) =
           filter (\<lambda>r. d_score r = k) (filter (\<lambda>r. d_type r = ''regular'') scored)))"
proof -
  have h1: "\<forall>r \<in> set sample_results. \<exists>d. netloc sample_lib (url r) = Inr d"
    by (simp add: sample_results_def sample_result_def new_SearchResult_def sample_lib_def)
  have h2: "\<forall>r \<in> set sample_dicts.
      d_type r \<noteq> ''info_box'' \<longrightarrow> (\<exists>d. netloc sample_lib (d_url r) = Inr d)"
    by (simp add: sample_dicts_def sample_dict_def sample_lib_def)
  show ?thesis
    using h1 h2 rank_is_stable_sort [of sample_lib "''apple''" sample_results sample_dicts]
    by blast
qed

text \<open>
  On the sample list Pear, Apple pie, Plum and the query apple, the two results with
  score 5 keep their input order behind the result with score 45.
\<close>

lemma main_rank_sample:
  "main_rank_results sample_lib ''apple'' sample_results =
     Inr [(sample_result ''Apple pie'' ''https://example.com/a'' ''y'')\<lparr>score := 45\<rparr>,
          (sample_result ''Pear'' ''https://example.com/a'' ''x'')\<lparr>score := 5\<rparr>,
          (sample_result ''Plum'' ''https://example.com/a'' ''z'')\<lparr>score := 5\<rparr>]"
  by (simp add: main_rank_results_def main_score_def sample_results_def sample_result_def
      new_SearchResult_def sample_lib_def sorted_reverse_def lower_def lower_char_def
      split_def is_space_def Let_def)

lemma app_rank_info_boxes:
  "for_each (app_rank_one lib q) ds = Inr scored \<Longrightarrow>
   filter (\<lambda>r. d_type r = ''info_box'') scored =
     map (\<lambda>r. r\<lparr>d_score := 50\<rparr>) (filter (\<lambda>r. d_type r = ''info_box'') ds)"
proof (induction ds arbitrary: scored)
  case Nil
  then show ?case by simp
next
  case (Cons d ds)
  from Cons.prems obtain d' scored' where d': "app_rank_one lib q d = Inr d'"
    and rest: "for_each (app_rank_one lib q) ds = Inr scored'" and sc: "scored = d' # scored'"
    by (auto split: sum.splits)
  have ty: "d_type d' = d_type d" using d' by (rule app_rank_one_type)
  have "d_type d = ''info_box'' \<Longrightarrow> d' = d\<lparr>d_score := 50\<rparr>"
    using d' by (simp add: app_rank_one_def)
  with ty Cons.IH [OF rest] show ?case by (simp add: sc)
qed

text \<open>
  Claim C4. The output of \<^verbatim>\<open>_rank_results\<close> of \<^verbatim>\<open>app.py\<close> is the info-box records of the
  input, in input order and each with score 50, followed by regular records only; so
  every info-box record stands before every regular record, whatever the scores. The
  ranker returns whenever \<^verbatim>\<open>urlparse\<close> accepts the URLs of the records it scores.
\<close>

theorem info_box_first:
  "((\<forall>r \<in> set ds. d_type r \<noteq> ''info_box'' \<longrightarrow> (\<exists>d. netloc lib (d_url r) = Inr d)) \<longrightarrow>
      (\<exists>out. app_rank_results lib q ds = Inr out)) \<and>
   (\<forall>out i j. app_rank_results lib q ds = Inr out \<longrightarrow> i < length out \<longrightarrow> j < length out \<longrightarrow>
      d_type (out ! i) = ''info_box'' \<longrightarrow> d_type (out ! j) = ''regular'' \<longrightarrow> i < j) \<and>
   (\<forall>out. app_rank_results lib q ds = Inr out \<longrightarrow>
      (\<exists>regs. out = map (\<lambda>r. r\<lparr>d_score := 50\<rparr>) (filter (\<lambda>r. d_type r = ''info_box'') ds) @ regs \<and>
              (\<forall>r \<in> set regs. d_type r = ''regular'')))"
proof (intro conjI impI allI)
  assume "\<forall>r \<in> set ds. d_type r \<noteq> ''info_box'' \<longrightarrow> (\<exists>d. netloc lib (d_url r) = Inr d)"
  then obtain scored where "for_each (app_rank_one lib q) ds = Inr scored"
    using app_rank_returns by blast
  then show "\<exists>out. app_rank_results lib q ds = Inr out"
    by (simp add: app_rank_results_def)
next
  fix out i j
  assume rank: "app_rank_results lib q ds = Inr out"
    and i: "i < length out" and j: "j < length out"
    and ti: "d_type (out ! i) = ''info_box''" and tj: "d_type (out ! j) = ''regular''"
  from rank obtain scored where out:
    "out = filter (\<lambda>r. d_type r = ''info_box'') scored
           @ sorted_reverse d_score (filter (\<lambda>r. d_type r = ''regular'') scored)"
    by (auto simp: app_rank_results_def split: sum.splits)
  define A where "A = filter (\<lambda>r. d_type r = ''info_box'') scored"
  define B where "B = sorted_reverse d_score (filter (\<lambda>r. d_type r = ''regular'') scored)"
  have A: "\<forall>r \<in> set A. d_type r = ''info_box''" by (simp add: A_def)
  have B: "\<forall>r \<in> set B. d_type r = ''regular''" by (simp add: B_def set_sorted_reverse)
  have o: "out = A @ B" by (simp add: out A_def B_def)
  have "i < length A"
  proof (rule ccontr)
    assume "\<not> i < length A"
    then have "out ! i = B ! (i - length A)" "i - length A < length B"
      using i o by (auto simp: nth_append)
    then have "d_type (out ! i) = ''regular''" using B by auto
    with ti show False by simp
  qed
  moreover have "length A \<le> j"
  proof (rule ccontr)
    assume "\<not> length A \<le> j"
    then have "out ! j = A ! j" "j < length A"
      using o by (auto simp: nth_append)
    then have "d_type (out ! j) = ''info_box''" using A by auto
    with tj show False by simp
  qed
  ultimately show "i < j" by simp
next
  fix out
  assume "app_rank_results lib q ds = Inr out"
  then obtain scored where sc: "for_each (app_rank_one lib q) ds = Inr scored"
    and out: "out = filter (\<lambda>r. d_type r = ''info_box'') scored
                @ sorted_reverse d_score (filter (\<lambda>r. d_type r = ''regular'') scored)"
    by (auto simp: app_rank_results_def split: sum.splits)
  have "out = map (\<lambda>r. r\<lparr>d_score := 50\<rparr>) (filter (\<lambda>r. d_type r = ''info_box'') ds)
          @ sorted_reverse d_score (filter (\<lambda>r. d_type r = ''regular'') scored)"
    unfolding out app_rank_info_boxes [OF sc] ..
  moreover have "\<forall>r \<in> set (sorted_reverse d_score (filter (\<lambda>r. d_type r = ''regular'') scored)).
      d_type r = ''regular''"
    by (simp add: set_sorted_reverse)
  ultimately show "\<exists>regs.
      out = map (\<lambda>r. r\<lparr>d_score := 50\<rparr>) (filter (\<lambda>r. d_type r = ''info_box'') ds) @ regs \<and>
      (\<forall>r \<in> set regs. d_type r = ''regular'')"
    by blast
qed

theorem info_box_first_witness:
  "\<exists>out regs. app_rank_results sample_lib ''apple'' sample_dicts = Inr out \<and>
     out = (sample_dict ''info_box'' ''Apple'' [])\<lparr>d_score := 50\<rparr> # regs \<and>
     (\<forall>r \<in> set regs. d_type r = ''regular'') \<and>
     (\<forall>i j. i < length out \<longrightarrow> j < length out \<longrightarrow>
        d_type (out ! i) = ''info_box'' \<longrightarrow> d_type (out ! j) = ''regular'' \<longrightarrow> i < j)"
proof -
  have h: "\<forall>r \<in> set sample_dicts.
      d_type r \<noteq> ''info_box'' \<longrightarrow> (\<exists>d. netloc sample_lib (d_url r) = Inr d)"
    by (simp add: sample_dicts_def sample_dict_def sample_lib_def)
  have f: "map (\<lambda>r. r\<lparr>d_score := 50\<rparr>) (filter (\<lambda>r. d_type r = ''info_box'') sample_dicts) =
      [(sample_dict ''info_box'' ''Apple'' [])\<lparr>d_score := 50\<rparr>]"
    by (simp add: sample_dicts_def sample_dict_def)
  note t = info_box_first [of sample_dicts sample_lib "''apple''"]
  from t h obtain out where out: "app_rank_results sample_lib ''apple'' sample_dicts = Inr out"
    by blast
  with t obtain regs where regs:
    "out = map (\<lambda>r. r\<lparr>d_score := 50\<rparr>) (filter (\<lambda>r. d_type r = ''info_box'') sample_dicts) @ regs"
    "\<forall>r \<in> set regs. d_type r = ''regular''"
    by blast
  from t out have "\<forall>i j. i < length out \<longrightarrow> j < length out \<longrightarrow>
        d_type (out ! i) = ''info_box'' \<longrightarrow> d_type (out ! j) = ''regular'' \<longrightarrow> i < j"
    by blast
  with out regs show ?thesis unfolding f by auto
qed

section \<open>Aggregator: all backends fail\<close>

lemma main_single_engine_failed:
  "fst (main_fetch_with_retry net u (main_search_params q p) 2) = Inl e \<Longrightarrow>
   fst (main_search_single_engine lib net u q p) = Inr []"
  by (cases "main_fetch_with_retry net u (main_search_params q p) 2")
     (simp add: main_search_single_engine_def)

lemma collect_nothing: "collect [Inr [], Inr []] [] [] = ([], [])"
  by simp

lemma main_search_miss_all_failed:
  assumes "\<forall>u \<in> set search_urls. \<exists>e. fst (main_fetch_with_retry net u (main_search_params q p) 2) = Inl e"
  shows "fst (main_search_miss lib net ord m1 st k q p) =
           (case main_save_to_cache lib (store st) m1 k (PList []) 3600 of
              Inl e \<Rightarrow> Inl e
            | Inr s' \<Rightarrow> Inr (PList []))"
proof -
  have "map fst (map (\<lambda>u. main_search_single_engine lib net u q p) search_urls) = [Inr [], Inr []]"
    using assms by (auto simp: search_urls_def main_single_engine_failed)
  then have "as_completed ord (map fst (map (\<lambda>u. main_search_single_engine lib net u q p) search_urls))
      = [Inr [], Inr []]"
    by (cases ord) (simp_all add: as_completed_def)
  then show ?thesis
    by (simp add: main_search_miss_def Let_def main_rank_results_def sorted_reverse_def
        split: sum.splits)
qed

text \<open>
  What \<^verbatim>\<open>search\<close> does when every backend fetch fails. In \<^verbatim>\<open>app.py\<close> it returns the empty
  list. In \<^verbatim>\<open>main.py\<close> it returns the empty list when the cache read finds nothing to
  return and the cache write of the empty list succeeds, as both always do with the
  in-process store; an exception of the cache read or of the cache write is raised to
  the caller.
\<close>

lemma search_when_all_backends_fail:
  "((\<forall>u \<in> set search_urls.
        \<exists>e. fst (main_fetch_with_retry net u (main_search_params q p) 2) = Inl e) \<longrightarrow>
    (\<forall>cached s0. main_get_from_cache lib (store st) m0 (main_get_cache_key lib q p) = Inr (cached, s0) \<longrightarrow>
       (case cached of Some v \<Rightarrow> \<not> truthy v | None \<Rightarrow> True) \<longrightarrow>
       fst (main_search lib net ord m0 m1 st q p) =
         (case main_save_to_cache lib s0 m1 (main_get_cache_key lib q p) (PList []) 3600 of
            Inl e \<Rightarrow> Inl e
          | Inr s' \<Rightarrow> Inr (PList [])))) \<and>
   (\<forall>e. main_get_from_cache lib (store st) m0 (main_get_cache_key lib q p) = Inl e \<longrightarrow>
      main_search lib net ord m0 m1 st q p = (Inl e, st)) \<and>
   (cache ast (q @ ''_'' @ str_of_int lib p) = None \<longrightarrow>
    (fst (app_fetch_with_retry net ''https://www.google.com/search'' (app_search_params q p) 5) = Inr None \<or>
     (\<exists>e. fst (app_fetch_with_retry net ''https://www.google.com/search'' (app_search_params q p) 5) = Inl e)) \<longrightarrow>
    fst (app_search lib net ast q p) = [])"
proof (intro conjI impI allI)
  fix cached s0
  assume fail: "\<forall>u \<in> set search_urls.
        \<exists>e. fst (main_fetch_with_retry net u (main_search_params q p) 2) = Inl e"
    and g: "main_get_from_cache lib (store st) m0 (main_get_cache_key lib q p) = Inr (cached, s0)"
    and miss: "case cached of Some v \<Rightarrow> \<not> truthy v | None \<Rightarrow> True"
  have "fst (main_search_miss lib net ord m1 (st\<lparr>store := s0\<rparr>) (main_get_cache_key lib q p) q p) =
      (case main_save_to_cache lib s0 m1 (main_get_cache_key lib q p) (PList []) 3600 of
         Inl e \<Rightarrow> Inl e
       | Inr s' \<Rightarrow> Inr (PList []))"
    using main_search_miss_all_failed [OF fail, of lib ord m1 "st\<lparr>store := s0\<rparr>"] by simp
  then show "fst (main_search lib net ord m0 m1 st q p) =
         (case main_save_to_cache lib s0 m1 (main_get_cache_key lib q p) (PList []) 3600 of
            Inl e \<Rightarrow> Inl e
          | Inr s' \<Rightarrow> Inr (PList []))"
    using g miss by (simp add: main_search_def Let_def split: option.splits)
next
  fix e
  assume "main_get_from_cache lib (store st) m0 (main_get_cache_key lib q p) = Inl e"
  then show "main_search lib net ord m0 m1 st q p = (Inl e, st)"
    by (simp add: main_search_def)
next
  assume "cache ast (q @ ''_'' @ str_of_int lib p) = None"
    and "fst (app_fetch_with_retry net ''https://www.google.com/search'' (app_search_params q p) 5) = Inr None \<or>
     (\<exists>e. fst (app_fetch_with_retry net ''https://www.google.com/search'' (app_search_params q p) 5) = Inl e)"
  then show "fst (app_search lib net ast q p) = []"
    by (cases "app_fetch_with_retry net ''https://www.google.com/search'' (app_search_params q p) 5")
       (auto simp: app_search_def Let_def)
qed

text \<open>
  Claim C1 fails on \<^verbatim>\<open>main.py\<close> as the module is built. \<^verbatim>\<open>redis.Redis(...)\<close> returns a
  client without connecting, so \<^verbatim>\<open>redis_client\<close> is the client and the fallback to the
  in-process cache announced in the module's \<^verbatim>\<open>except\<close> branch is not taken. With no
  Redis server reachable and every backend down, \<^verbatim>\<open>search('apple', 1)\<close> raises the
  \<^verbatim>\<open>ConnectionError\<close> of the cache read; with the server lost only after the read, it
  raises that of the cache write. With the in-process store the same call returns the
  empty list.
\<close>

theorem search_raises_redis_error:
  "main_search sample_lib net_down SubmissionOrder (down_at 0) (down_at 1) with_redis ''apple'' 1 =
     (Inl (RedisError ''ConnectionError''), with_redis) \<and>
   fst (main_search sample_lib net_down SubmissionOrder (up_at 0) (down_at 1) with_redis ''apple'' 1) =
     Inl (RedisError ''ConnectionError'') \<and>
   fst (main_search sample_lib net_down SubmissionOrder (down_at 0) (down_at 1) fresh_main ''apple'' 1) =
     Inr (PList [])"
proof (intro conjI)
  show "main_search sample_lib net_down SubmissionOrder (down_at 0) (down_at 1) with_redis ''apple'' 1 =
     (Inl (RedisError ''ConnectionError''), with_redis)"
    by (simp add: main_search_def main_get_from_cache_def redis_get_def with_redis_def
        new_ImprovedSearch_def down_at_def)
  have fail: "\<forall>u \<in> set search_urls.
      \<exists>e. fst (main_fetch_with_retry net_down u (main_search_params ''apple'' 1) 2) = Inl e"
    by (simp add: search_urls_def main_fetch_with_retry_def net_down_def upt_rec)
  note miss = main_search_miss_all_failed [OF fail]
  show "fst (main_search sample_lib net_down SubmissionOrder (up_at 0) (down_at 1) with_redis ''apple'' 1) =
     Inl (RedisError ''ConnectionError'')"
    by (simp add: main_search_def main_get_from_cache_def redis_get_def with_redis_def
        new_ImprovedSearch_def up_at_def miss main_save_to_cache_def redis_setex_def down_at_def)
  show "fst (main_search sample_lib net_down SubmissionOrder (down_at 0) (down_at 1) fresh_main ''apple'' 1) =
     Inr (PList [])"
    by (simp add: main_search_def main_get_from_cache_def fresh_main_def
        new_ImprovedSearch_def miss main_save_to_cache_def)
qed

section \<open>Suggestions for short queries\<close>







section \<open>Parser: a candidate without a snippet\<close>

lemma map_filter_member:
  "x \<in> set xs \<Longrightarrow> f x = Some y \<Longrightarrow> y \<in> set (List.map_filter f xs)"
  by (induction xs) (auto split: option.splits)

lemma map_filter_source:
  "y \<in> set (List.map_filter f xs) \<Longrightarrow> \<exists>x \<in> set xs. f x = Some y"
  by (induction xs) (auto split: option.splits)

text \<open>
  Claim C7, as the code has it. In \<^verbatim>\<open>app.py\<close> a result container with a title, a non-empty
  link target that \<^verbatim>\<open>urlparse\<close> accepts and no snippet element yields a regular result
  with the empty string as snippet. In \<^verbatim>\<open>main.py\<close> a candidate whose snippet is absent or
  empty is skipped, and a result is created only from a candidate whose title, URL
  and snippet are all non-empty (\<^verbatim>\<open>if title and url and snippet\<close>).
\<close>

theorem absent_snippet:
  "(node \<in> set (tF2Cxc_divs lib html) \<longrightarrow> t_h3 node = Some ti \<longrightarrow> t_link node = Some (Some u) \<longrightarrow>
      u \<noteq> [] \<longrightarrow> t_snippet node = None \<longrightarrow> (\<exists>d. netloc lib u = Inr d) \<longrightarrow>
      (\<exists>r \<in> set (app_parse_results lib html).
          d_type r = ''regular'' \<and> d_title r = ti \<and> d_url r = u \<and> d_snippet r = [])) \<and>
   (g_snippet gnode = None \<or> g_snippet gnode = Some [] \<longrightarrow> main_parse_candidate lib gnode = None) \<and>
   (\<forall>r. main_parse_candidate lib gnode = Some r \<longrightarrow>
      title r \<noteq> [] \<and> url r \<noteq> [] \<and> snippet r \<noteq> [] \<and>
      g_heading gnode = Some (title r) \<and> g_snippet gnode = Some (snippet r))"
proof (intro conjI impI allI)
  assume n: "node \<in> set (tF2Cxc_divs lib html)" and "t_h3 node = Some ti"
    "t_link node = Some (Some u)" "u \<noteq> []" "t_snippet node = None" "\<exists>d. netloc lib u = Inr d"
  then obtain r where r: "app_parse_candidate lib node = Some r"
     "d_type r = ''regular'' \<and> d_title r = ti \<and> d_url r = u \<and> d_snippet r = []"
    by (auto simp: app_parse_candidate_def app_categorize_result_def)
  from n r(1) have "r \<in> set (List.map_filter (app_parse_candidate lib) (tF2Cxc_divs lib html))"
    by (rule map_filter_member)
  then have "r \<in> set (app_parse_results lib html)"
    by (simp add: app_parse_results_def)
  with r(2) show "\<exists>r \<in> set (app_parse_results lib html).
          d_type r = ''regular'' \<and> d_title r = ti \<and> d_url r = u \<and> d_snippet r = []"
    by (rule_tac x = r in bexI)
next
  assume "g_snippet gnode = None \<or> g_snippet gnode = Some []"
  then show "main_parse_candidate lib gnode = None"
    by (auto simp: main_parse_candidate_def Let_def split: option.splits)
next
  fix r
  assume r: "main_parse_candidate lib gnode = Some r"
  then show "title r \<noteq> []" "url r \<noteq> []" "snippet r \<noteq> []"
    "g_heading gnode = Some (title r)" "g_snippet gnode = Some (snippet r)"
    by (auto simp: main_parse_candidate_def Let_def new_SearchResult_def
        split: option.splits if_splits sum.splits)
qed

theorem absent_snippet_witness:
  "(\<exists>r \<in> set (app_parse_results sample_lib page_t_bare).
      d_type r = ''regular'' \<and> d_title r = ''Apple'' \<and> d_url r = ''https://example.com/a'' \<and>
      d_snippet r = []) \<and>
   main_parse_candidate sample_lib
     \<lparr>g_heading = Some ''Apple'', g_link = Some (Some ''https://example.com/a''),
      g_snippet = None\<rparr> = None \<and>
   (\<exists>r. main_parse_candidate sample_lib
          \<lparr>g_heading = Some ''Apple'', g_link = Some (Some ''https://example.com/a''),
           g_snippet = Some ''A fruit''\<rparr> = Some r \<and>
        title r = ''Apple'' \<and> snippet r = ''A fruit'' \<and> url r \<noteq> [])"
proof -
  let ?node = "\<lparr>t_h3 = Some ''Apple'', t_link = Some (Some ''https://example.com/a''),
                  t_snippet = None, t_date = None\<rparr>"
  let ?g = "\<lparr>g_heading = Some ''Apple'', g_link = Some (Some ''https://example.com/a''),
             g_snippet = Some ''A fruit''\<rparr>"
  have a: "?node \<in> set (tF2Cxc_divs sample_lib page_t_bare)"
    by (simp add: sample_lib_def)
  have b: "\<exists>d. netloc sample_lib ''https://example.com/a'' = Inr d"
    by (simp add: sample_lib_def)
  have c: "main_parse_candidate sample_lib ?g \<noteq> None"
    by (simp add: main_parse_candidate_def main_categorize_result_def sample_lib_def Let_def)
  then obtain r where r: "main_parse_candidate sample_lib ?g = Some r" by blast
  have "title r \<noteq> [] \<and> url r \<noteq> [] \<and> snippet r \<noteq> [] \<and>
      g_heading ?g = Some (title r) \<and> g_snippet ?g = Some (snippet r)"
    using absent_snippet [of _ sample_lib _ _ _ ?g] r by blast
  then have g: "\<exists>r. main_parse_candidate sample_lib ?g = Some r \<and>
        title r = ''Apple'' \<and> snippet r = ''A fruit'' \<and> url r \<noteq> []"
    using r by auto
  show ?thesis
    using absent_snippet [of ?node sample_lib page_t_bare "''Apple''" "''https://example.com/a''"
        "\<lparr>g_heading = Some ''Apple'', g_link = Some (Some ''https://example.com/a''),
          g_snippet = None\<rparr>"] a b g
    by simp
qed

text \<open>
  The claim as the specification words it fails on \<^verbatim>\<open>main.py\<close>: a page whose only
  container has a title and a link but no snippet element parses to no result.
\<close>

theorem absent_snippet_counterexample:
  "g_results sample_lib page_g_bare =
     [\<lparr>g_heading = Some ''Apple'', g_link = Some (Some ''https://example.com/a''),
       g_snippet = None\<rparr>] \<and>
   main_parse_results sample_lib page_g_bare = []"
  by (simp add: main_parse_results_def main_parse_candidate_def sample_lib_def page_g_bare_def
      page_g_def Let_def)

section \<open>Ranker: the points for the query phrase in the snippet\<close>

lemma contains_sublist: "contains sub s \<longleftrightarrow> sublist sub s"
  by (induction s) (auto simp: sublist_Cons_right)

lemma sublist_chain:
  assumes "sublist a b" and "sublist b c"
  shows "sublist a c"
proof -
  from assms obtain p1 s1 p2 s2 where "b = p1 @ a @ s1" "c = p2 @ b @ s2"
    unfolding sublist_def by blast
  then have "c = (p2 @ p1) @ a @ (s1 @ s2)" by simp
  then show ?thesis unfolding sublist_def by blast
qed

lemma split_ws_sublist: "w \<in> set (split_ws acc s) \<Longrightarrow> sublist w (acc @ s)"
proof (induction acc s rule: split_ws.induct)
  case (1 w')
  then show ?case by (auto split: if_splits)
next
  case (2 w' c cs)
  show ?case
  proof (cases "is_space c")
    case True
    note sp = True
    show ?thesis
    proof (cases "w' = []")
      case True
      with sp 2 have "sublist w cs" by auto
      then show ?thesis using True by (simp add: sublist_Cons_right)
    next
      case False
      with sp 2 have "w = w' \<or> sublist w cs" by auto
      then show ?thesis
      proof
        assume "w = w'"
        then show ?thesis by (simp add: sublist_append_rightI)
      next
        assume "sublist w cs"
        then have "sublist w (c # cs)" by (simp add: sublist_Cons_right)
        then show ?thesis by (rule sublist_chain) simp
      qed
    qed
  next
    case False
    with 2 show ?thesis by auto
  qed
qed

lemma split_word_contained: "w \<in> set (split s) \<Longrightarrow> contains w s"
  using split_ws_sublist [of w "[]" s] by (simp add: split_def contains_sublist)

lemma contains_trans: "contains a b \<Longrightarrow> contains b c \<Longrightarrow> contains a c"
  unfolding contains_sublist by (rule sublist_chain)

lemma phrase_hits_all_keywords:
  "contains (lower q) t \<Longrightarrow> filter (\<lambda>w. contains w t) (split (lower q)) = split (lower q)"
  by (rule filter_True) (blast intro: contains_trans split_word_contained)

lemma sum_list_const: "sum_list (map (\<lambda>x. c) xs) = c * int (length xs)"
  by (induction xs) (simp_all add: algebra_simps)

text \<open>
  Claim C8, as the code has it. In \<^verbatim>\<open>app.py\<close>, of two results that differ in the snippet
  only, one with the lowercased query in its lowercased snippet and one without, the
  first scores exactly 10 points more, the 2 points per query keyword found in the
  snippet left aside; and the score the ranker stores in a regular result is this
  score. (With the phrase in the snippet every keyword is found in it, see
  \<open>phrase_hits_all_keywords\<close>.) In \<^verbatim>\<open>main.py\<close> the snippet earns 5 points per query term
  found in it and nothing for the phrase.
\<close>

theorem snippet_phrase_points:
  "(contains (lower q) (lower s1) \<longrightarrow> \<not> contains (lower q) (lower s2) \<longrightarrow>
      app_score lib q (r\<lparr>d_snippet := s1\<rparr>) = Inr a \<longrightarrow>
      app_score lib q (r\<lparr>d_snippet := s2\<rparr>) = Inr b \<longrightarrow>
      a - 2 * int (length (filter (\<lambda>w. contains w (lower s1)) (split (lower q)))) =
      b - 2 * int (length (filter (\<lambda>w. contains w (lower s2)) (split (lower q)))) + 10) \<and>
   (d_type r \<noteq> ''info_box'' \<longrightarrow> app_rank_one lib q r = Inr r' \<longrightarrow>
      r' = r\<lparr>d_score := d_score r'\<rparr> \<and> app_score lib q r = Inr (d_score r')) \<and>
   (main_score lib q (m\<lparr>snippet := s1\<rparr>) = Inr c \<longrightarrow>
      main_score lib q (m\<lparr>snippet := s2\<rparr>) = Inr d \<longrightarrow>
      c - 5 * int (length (filter (\<lambda>w. contains w (lower s1)) (split (lower q)))) =
      d - 5 * int (length (filter (\<lambda>w. contains w (lower s2)) (split (lower q)))))"
proof (intro conjI impI)
  assume "contains (lower q) (lower s1)" "\<not> contains (lower q) (lower s2)"
    "app_score lib q (r\<lparr>d_snippet := s1\<rparr>) = Inr a"
    "app_score lib q (r\<lparr>d_snippet := s2\<rparr>) = Inr b"
  then show "a - 2 * int (length (filter (\<lambda>w. contains w (lower s1)) (split (lower q)))) =
      b - 2 * int (length (filter (\<lambda>w. contains w (lower s2)) (split (lower q)))) + 10"
    by (cases "netloc lib (d_url r)") (auto simp: app_score_def Let_def)
next
  assume "d_type r \<noteq> ''info_box''" "app_rank_one lib q r = Inr r'"
  then show "r' = r\<lparr>d_score := d_score r'\<rparr>" "app_score lib q r = Inr (d_score r')"
    by (auto simp: app_rank_one_def split: sum.splits)
next
  assume "main_score lib q (m\<lparr>snippet := s1\<rparr>) = Inr c"
    "main_score lib q (m\<lparr>snippet := s2\<rparr>) = Inr d"
  then show "c - 5 * int (length (filter (\<lambda>w. contains w (lower s1)) (split (lower q)))) =
      d - 5 * int (length (filter (\<lambda>w. contains w (lower s2)) (split (lower q))))"
    by (cases "netloc lib (url m)") (auto simp: main_score_def Let_def sum_list_const)
qed

lemma app_score_ab:
  "app_score sample_lib ''a b'' ((sample_dict ''regular'' ''T'' [])\<lparr>d_snippet := ''a b''\<rparr>) = Inr 22"
  by (simp add: app_score_def sample_dict_def sample_lib_def lower_def lower_char_def
      split_def is_space_def Let_def)

lemma app_score_ba:
  "app_score sample_lib ''a b'' ((sample_dict ''regular'' ''T'' [])\<lparr>d_snippet := ''b a''\<rparr>) = Inr 12"
  by (simp add: app_score_def sample_dict_def sample_lib_def lower_def lower_char_def
      split_def is_space_def Let_def)

theorem snippet_phrase_points_witness:
  "app_score sample_lib ''a b'' ((sample_dict ''regular'' ''T'' [])\<lparr>d_snippet := ''a b''\<rparr>) = Inr 22 \<and>
   app_score sample_lib ''a b'' ((sample_dict ''regular'' ''T'' [])\<lparr>d_snippet := ''b a''\<rparr>) = Inr 12 \<and>
   (22::int) - 2 * int (length (filter (\<lambda>w. contains w (lower ''a b'')) (split (lower ''a b'')))) =
    12 - 2 * int (length (filter (\<lambda>w. contains w (lower ''b a'')) (split (lower ''a b'')))) + 10"
proof -
  have h1: "contains (lower ''a b'') (lower ''a b'')" by code_simp
  have h2: "\<not> contains (lower ''a b'') (lower ''b a'')" by code_simp
  show ?thesis
    using snippet_phrase_points [of "''a b''" "''a b''" "''b a''" sample_lib
        "sample_dict ''regular'' ''T'' []" 22 12] h1 h2 app_score_ab app_score_ba
    by simp
qed

text \<open>
  The claim as the specification words it fails on \<^verbatim>\<open>main.py\<close>: the query apple is in the
  snippet of the first result and not in that of the second, which is otherwise the
  same, and the scores differ by 5.
\<close>

theorem snippet_phrase_counterexample:
  "contains (lower ''apple'') (lower ''apple'') \<and> \<not> contains (lower ''apple'') (lower ''pear'') \<and>
   main_score sample_lib ''apple'' (sample_result ''T'' ''https://www.example.org/a'' ''apple'') = Inr 20 \<and>
   main_score sample_lib ''apple'' (sample_result ''T'' ''https://www.example.org/a'' ''pear'') = Inr 15"
  by (simp add: main_score_def sample_result_def new_SearchResult_def sample_lib_def lower_def
      lower_char_def split_def is_space_def Let_def)

section \<open>\<^verbatim>\<open>main.py\<close> returns regular records only\<close>

lemma to_dict_regular: "is_regular (to_dict r)"
  by (simp add: to_dict_def is_regular_def)

lemma serialized_all_regular: "all_regular (PList (map to_dict rs))"
  by (simp add: all_regular_def list_all_iff to_dict_regular)

lemma main_parse_candidate_netloc:
  "main_parse_candidate lib node = Some r \<Longrightarrow> \<exists>d. netloc lib (url r) = Inr d"
  by (auto simp: main_parse_candidate_def Let_def main_categorize_result_def new_SearchResult_def
      split: option.splits if_splits sum.splits)

lemma main_parse_results_netloc:
  "r \<in> set (main_parse_results lib html) \<Longrightarrow> \<exists>d. netloc lib (url r) = Inr d"
  unfolding main_parse_results_def
  using map_filter_source main_parse_candidate_netloc by fast

lemma single_engine_netloc:
  "fst (main_search_single_engine lib net u q p) = Inr rs \<Longrightarrow> r \<in> set rs \<Longrightarrow>
   \<exists>d. netloc lib (url r) = Inr d"
  by (cases "main_fetch_with_retry net u (main_search_params q p) 2")
     (auto simp: main_search_single_engine_def main_parse_results_netloc
       split: sum.splits if_splits)

lemma single_engine_returns: "\<exists>rs. fst (main_search_single_engine lib net u q p) = Inr rs"
  by (cases "main_fetch_with_retry net u (main_search_params q p) 2")
     (auto simp: main_search_single_engine_def split: sum.splits)

lemma collect_all:
  "\<forall>f \<in> set fs. \<forall>l. f = Inr l \<longrightarrow> (\<forall>r \<in> set l. P r) \<Longrightarrow> \<forall>r \<in> set rs. P r \<Longrightarrow>
   \<forall>r \<in> set (fst (collect fs rs es)). P r"
proof (induction fs arbitrary: rs es)
  case Nil
  then show ?case by simp
next
  case (Cons f fs)
  show ?case
  proof (cases f)
    case (Inl e)
    with Cons show ?thesis by simp
  next
    case (Inr l)
    with Cons.prems have "\<forall>r \<in> set (rs @ l). P r" by auto
    moreover from Cons.prems have "\<forall>f \<in> set fs. \<forall>l. f = Inr l \<longrightarrow> (\<forall>r \<in> set l. P r)" by simp
    ultimately have "\<forall>r \<in> set (fst (collect fs (rs @ l) es)). P r"
      by (rule Cons.IH [rotated])
    with Inr \<open>\<forall>r \<in> set (rs @ l). P r\<close> show ?thesis by (simp add: Let_def)
  qed
qed

lemma set_as_completed: "set (as_completed ord fs) = set fs"
  by (cases ord) (simp_all add: as_completed_def)

lemma main_search_miss_cases:
  "\<exists>ser. all_regular ser \<and>
     (main_search_miss lib net ord m1 st k q p =
        (Inr ser, st\<lparr>requests := requests (snd (main_search_miss lib net ord m1 st k q p))\<rparr>) \<or>
      (\<exists>e. main_save_to_cache lib (store st) m1 k ser 3600 = Inl e \<and>
           main_search_miss lib net ord m1 st k q p =
             (Inl e, st\<lparr>requests := requests (snd (main_search_miss lib net ord m1 st k q p))\<rparr>)) \<or>
      (\<exists>s'. main_save_to_cache lib (store st) m1 k ser 3600 = Inr s' \<and>
           main_search_miss lib net ord m1 st k q p =
             (Inr ser, st\<lparr>store := s',
                          requests := requests (snd (main_search_miss lib net ord m1 st k q p))\<rparr>)))"
proof -
  define futures where "futures = map (\<lambda>u. main_search_single_engine lib net u q p) search_urls"
  obtain results errors where c: "collect (as_completed ord (map fst futures)) [] [] = (results, errors)"
    by (cases "collect (as_completed ord (map fst futures)) [] []")
  have "\<forall>f \<in> set (as_completed ord (map fst futures)).
          \<forall>l. f = Inr l \<longrightarrow> (\<forall>r \<in> set l. \<exists>d. netloc lib (url r) = Inr d)"
  proof (intro ballI allI impI)
    fix f l r
    assume "f \<in> set (as_completed ord (map fst futures))" and "f = Inr l" and r: "r \<in> set l"
    then obtain u where "fst (main_search_single_engine lib net u q p) = Inr l"
      by (auto simp: set_as_completed futures_def)
    then show "\<exists>d. netloc lib (url r) = Inr d"
      using r by (rule single_engine_netloc)
  qed
  then have "\<forall>r \<in> set (fst (collect (as_completed ord (map fst futures)) [] [])).
               \<exists>d. netloc lib (url r) = Inr d"
    by (rule collect_all) simp
  with c have "\<forall>r \<in> set results. \<exists>d. netloc lib (url r) = Inr d" by simp
  then obtain scored where
    "for_each (\<lambda>r. case main_score lib q r of Inl e \<Rightarrow> Inl e
                    | Inr s \<Rightarrow> Inr (r\<lparr>score := s\<rparr>)) results = Inr scored"
    using main_rank_returns by blast
  then have rank: "main_rank_results lib q results = Inr (sorted_reverse score scored)"
    by (simp add: main_rank_results_def)
  define ser where "ser = PList (map to_dict (sorted_reverse score scored))"
  have reg: "all_regular ser" unfolding ser_def by (rule serialized_all_regular)
  have empty: "all_regular (PList [])" by (simp add: all_regular_def)
  show ?thesis
  proof (cases "results = [] \<and> errors \<noteq> []")
    case True
    then have "main_search_miss lib net ord m1 st k q p =
        (Inr (PList []), st\<lparr>requests := requests (snd (main_search_miss lib net ord m1 st k q p))\<rparr>)"
      using c by (simp add: main_search_miss_def Let_def futures_def)
    with empty show ?thesis by blast
  next
    case False
    then have nf: "(results = [] \<and> errors \<noteq> []) = False" by simp
    show ?thesis
    proof (cases "main_save_to_cache lib (store st) m1 k ser 3600")
      case (Inl e)
      then have "main_search_miss lib net ord m1 st k q p =
          (Inl e, st\<lparr>requests := requests (snd (main_search_miss lib net ord m1 st k q p))\<rparr>)"
        using c rank by (simp add: main_search_miss_def Let_def futures_def ser_def nf)
      with Inl reg show ?thesis by blast
    next
      case (Inr s')
      then have "main_search_miss lib net ord m1 st k q p =
          (Inr ser, st\<lparr>store := s',
                       requests := requests (snd (main_search_miss lib net ord m1 st k q p))\<rparr>)"
        using c rank by (simp add: main_search_miss_def Let_def futures_def ser_def nf)
      with Inr reg show ?thesis by blast
    qed
  qed
qed

lemma save_in_memory_returns: "\<exists>s'. main_save_to_cache lib (InMemory c) m k v ttl = Inr s'"
  by (simp add: main_save_to_cache_def)

lemma cache_invD:
  "cache_inv c \<Longrightarrow> c k = Some (v, e) \<Longrightarrow> prefix ''suggest_'' k \<or> all_regular v"
  unfolding cache_inv_def by (erule allE [of _ k], erule allE [of _ v], erule allE [of _ e]) simp

lemma redis_invD:
  "redis_inv lib db \<Longrightarrow> db k = Some (s, e) \<Longrightarrow> json_loads lib s = Inr w \<Longrightarrow>
   prefix ''suggest_'' k \<or> all_regular w"
  unfolding redis_inv_def
  by (erule allE [of _ k], erule allE [of _ s], erule allE [of _ e]) blast

lemma get_from_cache_inv:
  assumes "store_inv lib s" and "main_get_from_cache lib' s m k = Inr (cached, s')"
  shows "store_inv lib s'"
proof (cases s)
  case (Redis db)
  with assms(2) have "s' = s"
    by (auto simp: main_get_from_cache_def split: sum.splits option.splits if_splits)
  with assms(1) show ?thesis by simp
next
  case (InMemory c)
  with assms(1) have c: "cache_inv c" by (simp add: store_inv_def)
  from assms(2) InMemory have "s' = s \<or> s' = InMemory (c(k := None))"
    by (auto simp: main_get_from_cache_def split: option.splits if_splits)
  moreover have "cache_inv (c(k := None))"
    using c by (simp add: cache_inv_def)
  ultimately show ?thesis using assms(1) by (auto simp: store_inv_def)
qed

lemma get_from_cache_value:
  assumes "store_inv lib s" and "main_get_from_cache lib' s m k = Inr (Some v, s')"
    and "json_loads lib' = json_loads lib"
  shows "prefix ''suggest_'' k \<or> all_regular v"
proof (cases s)
  case (Redis db)
  with assms(1) have inv: "redis_inv lib db" by (simp add: store_inv_def)
  from assms(2) Redis obtain cached e where "db k = Some (cached, e)"
      and "json_loads lib' cached = Inr v"
    by (auto simp: main_get_from_cache_def redis_get_def
        split: sum.splits option.splits if_splits)
  with assms(3) have "db k = Some (cached, e)" "json_loads lib cached = Inr v" by simp_all
  with inv show ?thesis by (rule redis_invD)
next
  case (InMemory c)
  with assms(1) have inv: "cache_inv c" by (simp add: store_inv_def)
  from assms(2) InMemory obtain e where "c k = Some (v, e)"
    by (auto simp: main_get_from_cache_def split: option.splits if_splits)
  with inv show ?thesis by (rule cache_invD)
qed

lemma save_regular_inv:
  assumes "store_inv lib s" and "all_regular v" and "regular_codec lib"
    and "json_loads lib' = json_loads lib" and "json_dumps lib' = json_dumps lib"
    and "main_save_to_cache lib' s m k v ttl = Inr s'"
  shows "store_inv lib s'"
proof (cases s)
  case (Redis db)
  with assms(1) have inv: "redis_inv lib db" by (simp add: store_inv_def)
  from assms(6) Redis have s': "s' = Redis (db(k \<mapsto> (json_dumps lib v, clock m + ttl)))"
    by (auto simp: main_save_to_cache_def redis_setex_def assms(5) split: if_splits)
  have new: "\<forall>w. json_loads lib (json_dumps lib v) = Inr w \<longrightarrow> all_regular w"
    using assms(2,3) unfolding regular_codec_def by blast
  have "redis_inv lib (db(k \<mapsto> (json_dumps lib v, clock m + ttl)))"
    unfolding redis_inv_def
  proof (intro allI impI)
    fix k' s0 e
    assume h: "(db(k \<mapsto> (json_dumps lib v, clock m + ttl))) k' = Some (s0, e)"
    show "prefix ''suggest_'' k' \<or> (\<forall>w. json_loads lib s0 = Inr w \<longrightarrow> all_regular w)"
    proof (cases "k' = k")
      case True
      with h have "s0 = json_dumps lib v" by simp
      with new show ?thesis by simp
    next
      case False
      with h have "db k' = Some (s0, e)" by simp
      with inv show ?thesis unfolding redis_inv_def by blast
    qed
  qed
  with s' show ?thesis by (simp add: store_inv_def)
next
  case (InMemory c)
  with assms(1) have inv: "cache_inv c" by (simp add: store_inv_def)
  from assms(6) InMemory have "s' = InMemory (c(k \<mapsto> (v, float_add lib' (clock m) ttl)))"
    by (simp add: main_save_to_cache_def)
  moreover have "cache_inv (c(k \<mapsto> (v, float_add lib' (clock m) ttl)))"
    using inv assms(2) by (simp add: cache_inv_def)
  ultimately show ?thesis by (simp add: store_inv_def)
qed

lemma save_suggest_inv:
  assumes "store_inv lib s" and "prefix ''suggest_'' k"
    and "main_save_to_cache lib' s m k v ttl = Inr s'"
  shows "store_inv lib s'"
proof (cases s)
  case (Redis db)
  with assms(1) have inv: "redis_inv lib db" by (simp add: store_inv_def)
  from assms(3) Redis have s': "s' = Redis (db(k \<mapsto> (json_dumps lib' v, clock m + ttl)))"
    by (auto simp: main_save_to_cache_def redis_setex_def split: if_splits)
  have "redis_inv lib (db(k \<mapsto> (json_dumps lib' v, clock m + ttl)))"
    using inv assms(2) by (simp add: redis_inv_def)
  with s' show ?thesis by (simp add: store_inv_def)
next
  case (InMemory c)
  with assms(1) have inv: "cache_inv c" by (simp add: store_inv_def)
  from assms(3) InMemory have "s' = InMemory (c(k \<mapsto> (v, float_add lib' (clock m) ttl)))"
    by (simp add: main_save_to_cache_def)
  moreover have "cache_inv (c(k \<mapsto> (v, float_add lib' (clock m) ttl)))"
    using inv assms(2) by (simp add: cache_inv_def)
  ultimately show ?thesis by (simp add: store_inv_def)
qed

lemma hexdigest_no_suggest:
  assumes "hexdigest lib"
  shows "\<not> prefix ''suggest_'' (md5_hexdigest lib s)"
proof
  assume "prefix ''suggest_'' (md5_hexdigest lib s)"
  then have "set ''suggest_'' \<subseteq> set (md5_hexdigest lib s)"
    by (rule set_mono_prefix)
  then have "CHR ''s'' \<in> set (md5_hexdigest lib s)" by simp
  moreover have "CHR ''s'' \<notin> set ''0123456789abcdef''" by simp
  ultimately show False using assms unfolding hexdigest_def by blast
qed

lemma main_search_miss_inv:
  assumes inv: "store_inv lib (store st)" and codec: "regular_codec lib"
    and l: "json_loads lib' = json_loads lib" and d: "json_dumps lib' = json_dumps lib"
  shows "(\<forall>out. fst (main_search_miss lib' net ord m1 st k q p) = Inr out \<longrightarrow> all_regular out) \<and>
         store_inv lib (store (snd (main_search_miss lib' net ord m1 st k q p)))"
proof -
  obtain ser where reg: "all_regular ser" and cases:
    "main_search_miss lib' net ord m1 st k q p =
        (Inr ser, st\<lparr>requests := requests (snd (main_search_miss lib' net ord m1 st k q p))\<rparr>) \<or>
      (\<exists>e. main_save_to_cache lib' (store st) m1 k ser 3600 = Inl e \<and>
           main_search_miss lib' net ord m1 st k q p =
             (Inl e, st\<lparr>requests := requests (snd (main_search_miss lib' net ord m1 st k q p))\<rparr>)) \<or>
      (\<exists>s'. main_save_to_cache lib' (store st) m1 k ser 3600 = Inr s' \<and>
           main_search_miss lib' net ord m1 st k q p =
             (Inr ser, st\<lparr>store := s',
                          requests := requests (snd (main_search_miss lib' net ord m1 st k q p))\<rparr>))"
    using main_search_miss_cases [of lib' net ord m1 st k q p] by blast
  from cases show ?thesis
  proof (elim disjE exE conjE)
    assume e: "main_search_miss lib' net ord m1 st k q p =
        (Inr ser, st\<lparr>requests := requests (snd (main_search_miss lib' net ord m1 st k q p))\<rparr>)"
    have "fst (main_search_miss lib' net ord m1 st k q p) = Inr ser"
      by (subst e) simp
    moreover have "store (snd (main_search_miss lib' net ord m1 st k q p)) = store st"
      by (subst e) simp
    ultimately show ?thesis using reg inv by simp
  next
    fix e
    assume e: "main_search_miss lib' net ord m1 st k q p =
        (Inl e, st\<lparr>requests := requests (snd (main_search_miss lib' net ord m1 st k q p))\<rparr>)"
    have "fst (main_search_miss lib' net ord m1 st k q p) = Inl e"
      by (subst e) simp
    moreover have "store (snd (main_search_miss lib' net ord m1 st k q p)) = store st"
      by (subst e) simp
    ultimately show ?thesis using inv by simp
  next
    fix s'
    assume sv: "main_save_to_cache lib' (store st) m1 k ser 3600 = Inr s'"
      and e: "main_search_miss lib' net ord m1 st k q p =
        (Inr ser, st\<lparr>store := s',
                     requests := requests (snd (main_search_miss lib' net ord m1 st k q p))\<rparr>)"
    have "fst (main_search_miss lib' net ord m1 st k q p) = Inr ser"
      by (subst e) simp
    moreover have "store (snd (main_search_miss lib' net ord m1 st k q p)) = s'"
      by (subst e) simp
    moreover have "store_inv lib s'"
      by (rule save_regular_inv [OF inv reg codec l d sv])
    ultimately show ?thesis using reg by simp
  qed
qed

lemma main_search_inv:
  assumes inv: "store_inv lib (store st)" and codec: "regular_codec lib"
    and l: "json_loads lib' = json_loads lib" and d: "json_dumps lib' = json_dumps lib"
  shows "(hexdigest lib' \<longrightarrow>
           (\<forall>out. fst (main_search lib' net ord m0 m1 st q p) = Inr out \<longrightarrow> all_regular out)) \<and>
         store_inv lib (store (snd (main_search lib' net ord m0 m1 st q p)))"
proof -
  define k where "k = main_get_cache_key lib' q p"
  have nk: "hexdigest lib' \<Longrightarrow> \<not> prefix ''suggest_'' k"
    unfolding k_def main_get_cache_key_def by (rule hexdigest_no_suggest)
  show ?thesis
  proof (cases "main_get_from_cache lib' (store st) m0 k")
    case (Inl e)
    then have "main_search lib' net ord m0 m1 st q p = (Inl e, st)"
      by (simp add: main_search_def k_def)
    with inv show ?thesis by simp
  next
    case (Inr res)
    obtain cached s0 where res: "res = (cached, s0)" by (cases res)
    with Inr have g: "main_get_from_cache lib' (store st) m0 k = Inr (cached, s0)" by simp
    have s0: "store_inv lib s0" by (rule get_from_cache_inv [OF inv g])
    then have s0': "store_inv lib (store (st\<lparr>store := s0\<rparr>))" by simp
    note miss = main_search_miss_inv [OF s0' codec l d, of net ord m1 k q p]
    show ?thesis
    proof (cases "\<exists>v. cached = Some v \<and> truthy v")
      case True
      then obtain v where v: "cached = Some v" "truthy v" by blast
      with g have gv: "main_get_from_cache lib' (store st) m0 k = Inr (Some v, s0)" by simp
      have "hexdigest lib' \<Longrightarrow> all_regular v"
        using get_from_cache_value [OF inv gv l] nk by blast
      moreover have "main_search lib' net ord m0 m1 st q p = (Inr v, st\<lparr>store := s0\<rparr>)"
        using g v by (simp add: main_search_def Let_def k_def)
      ultimately show ?thesis using s0 by auto
    next
      case False
      then have "main_search lib' net ord m0 m1 st q p =
          main_search_miss lib' net ord m1 (st\<lparr>store := s0\<rparr>) k q p"
        using g by (auto simp: main_search_def Let_def k_def split: option.splits)
      with miss show ?thesis by simp
    qed
  qed
qed

lemma main_search_miss_in_memory:
  assumes "store st = InMemory c"
  shows "\<exists>out. fst (main_search_miss lib net ord m1 st k q p) = Inr out"
proof -
  obtain ser where cases:
    "main_search_miss lib net ord m1 st k q p =
        (Inr ser, st\<lparr>requests := requests (snd (main_search_miss lib net ord m1 st k q p))\<rparr>) \<or>
      (\<exists>e. main_save_to_cache lib (store st) m1 k ser 3600 = Inl e \<and>
           main_search_miss lib net ord m1 st k q p =
             (Inl e, st\<lparr>requests := requests (snd (main_search_miss lib net ord m1 st k q p))\<rparr>)) \<or>
      (\<exists>s'. main_save_to_cache lib (store st) m1 k ser 3600 = Inr s' \<and>
           main_search_miss lib net ord m1 st k q p =
             (Inr ser, st\<lparr>store := s',
                          requests := requests (snd (main_search_miss lib net ord m1 st k q p))\<rparr>))"
    using main_search_miss_cases [of lib net ord m1 st k q p] by blast
  have "\<And>e. main_save_to_cache lib (store st) m1 k ser 3600 \<noteq> Inl e"
    using save_in_memory_returns [of lib c m1 k ser 3600] assms by auto
  with cases have "main_search_miss lib net ord m1 st k q p =
        (Inr ser, st\<lparr>requests := requests (snd (main_search_miss lib net ord m1 st k q p))\<rparr>) \<or>
      (\<exists>s'. main_search_miss lib net ord m1 st k q p =
             (Inr ser, st\<lparr>store := s',
                          requests := requests (snd (main_search_miss lib net ord m1 st k q p))\<rparr>))"
    by blast
  then show ?thesis
  proof (elim disjE exE)
    assume e: "main_search_miss lib net ord m1 st k q p =
        (Inr ser, st\<lparr>requests := requests (snd (main_search_miss lib net ord m1 st k q p))\<rparr>)"
    have "fst (main_search_miss lib net ord m1 st k q p) = Inr ser" by (subst e) simp
    then show ?thesis by blast
  next
    fix s'
    assume e: "main_search_miss lib net ord m1 st k q p =
        (Inr ser, st\<lparr>store := s',
                     requests := requests (snd (main_search_miss lib net ord m1 st k q p))\<rparr>)"
    have "fst (main_search_miss lib net ord m1 st k q p) = Inr ser" by (subst e) simp
    then show ?thesis by blast
  qed
qed

lemma main_search_in_memory:
  assumes "store st = InMemory c"
  shows "\<exists>out. fst (main_search lib net ord m0 m1 st q p) = Inr out"
proof -
  have "\<exists>cached c'. main_get_from_cache lib (InMemory c) m0 (main_get_cache_key lib q p) =
      Inr (cached, InMemory c')"
    by (cases "c (main_get_cache_key lib q p)") (auto simp: main_get_from_cache_def)
  then obtain cached c' where g:
    "main_get_from_cache lib (store st) m0 (main_get_cache_key lib q p) = Inr (cached, InMemory c')"
    using assms by auto
  have "store (st\<lparr>store := InMemory c'\<rparr>) = InMemory c'" by simp
  then obtain out where
    "fst (main_search_miss lib net ord m1 (st\<lparr>store := InMemory c'\<rparr>)
            (main_get_cache_key lib q p) q p) = Inr out"
    using main_search_miss_in_memory by blast
  then show ?thesis
    using g by (auto simp: main_search_def Let_def split: option.splits)
qed

lemma main_suggest_miss_inv:
  assumes "store_inv lib (store st)" and "prefix ''suggest_'' k"
  shows "store_inv lib (store (snd (main_suggest_miss lib' net m1 st k q)))"
proof -
  have "store (snd (main_suggest_miss lib' net m1 st k q)) = store st \<or>
        (\<exists>v s'. main_save_to_cache lib' (store st) m1 k v 1800 = Inr s' \<and>
                 store (snd (main_suggest_miss lib' net m1 st k q)) = s')"
    by (cases "main_fetch_with_retry net ''https://suggestqueries.google.com/complete/search''
             [(''client'', PStr ''chrome''), (''q'', PStr q)] 2")
       (auto simp: main_suggest_miss_def Let_def split: sum.splits)
  then show ?thesis
    using assms(1) save_suggest_inv [OF assms(1) assms(2)] by auto
qed

lemma main_get_suggestions_inv:
  assumes inv: "store_inv lib (store st)"
  shows "store_inv lib (store (snd (main_get_suggestions lib' net m0 m1 st q)))"
proof (cases "q = [] \<or> length q < 2")
  case True
  with inv show ?thesis by (simp add: main_get_suggestions_def)
next
  case False
  have pre: "prefix ''suggest_'' (''suggest_'' @ q)"
    by (rule prefixI) simp
  show ?thesis
  proof (cases "main_get_from_cache lib' (store st) m0 (''suggest_'' @ q)")
    case (Inl e)
    with False inv show ?thesis by (simp add: main_get_suggestions_def)
  next
    case (Inr res)
    obtain cached s0 where res: "res = (cached, s0)" by (cases res)
    with Inr have g: "main_get_from_cache lib' (store st) m0 (''suggest_'' @ q) = Inr (cached, s0)"
      by simp
    have s0: "store_inv lib s0" by (rule get_from_cache_inv [OF inv g])
    then have s0': "store_inv lib (store (st\<lparr>store := s0\<rparr>))" by simp
    have miss: "store_inv lib (store (snd (main_suggest_miss lib' net m1 (st\<lparr>store := s0\<rparr>)
                  (''suggest_'' @ q) q)))"
      by (rule main_suggest_miss_inv [OF s0' pre])
    show ?thesis
      using False g s0 miss
      by (auto simp: main_get_suggestions_def Let_def split: option.splits prod.splits)
  qed
qed

lemma reachable_store_inv:
  assumes "regular_codec lib"
  shows "reachable lib st \<Longrightarrow> store_inv lib (store st)"
proof (induction rule: reachable.induct)
  case (fresh constructed)
  show ?case
    by (cases constructed)
       (simp_all add: new_ImprovedSearch_def store_inv_def cache_inv_def redis_inv_def)
next
  case (search st d net order m0 m1 query page)
  have "json_loads (lib\<lparr>days_old := d\<rparr>) = json_loads lib"
    "json_dumps (lib\<lparr>days_old := d\<rparr>) = json_dumps lib"
    by simp_all
  then show ?case
    using main_search_inv [OF search.IH assms] by blast
next
  case (suggest st d net m0 m1 query)
  from suggest.IH show ?case by (rule main_get_suggestions_inv)
qed

lemma sample_hexdigest: "hexdigest sample_lib"
  by (simp add: hexdigest_def sample_lib_def)

lemma sample_regular_codec: "regular_codec sample_lib"
  by (auto simp: regular_codec_def sample_lib_def all_regular_def split: if_splits)

text \<open>
  Claim C10. In every reachable state of \<^verbatim>\<open>main.py\<close>, whichever cache store it uses, a
  value that \<^verbatim>\<open>search\<close> returns is a list of dicts that all have \<^verbatim>\<open>'type'\<close> equal to
  \<^verbatim>\<open>'regular'\<close>, whether the list is computed or comes from the cache: the parser builds
  only \<^verbatim>\<open>SearchResult\<close> objects, \<^verbatim>\<open>to_dict\<close> writes the type, and suggestion entries live
  under keys that no digest equals. With the in-process store \<^verbatim>\<open>search\<close> always returns.
\<close>

theorem search_returns_only_regular:
  "hexdigest lib \<Longrightarrow> regular_codec lib \<Longrightarrow> reachable lib st \<Longrightarrow>
   (\<forall>out. fst (main_search (lib\<lparr>days_old := d\<rparr>) net ord m0 m1 st q p) = Inr out \<longrightarrow>
      all_regular out) \<and>
   ((\<exists>c. store st = InMemory c) \<longrightarrow>
      (\<exists>out. fst (main_search (lib\<lparr>days_old := d\<rparr>) net ord m0 m1 st q p) = Inr out))"
proof
  assume hex: "hexdigest lib" and codec: "regular_codec lib" and r: "reachable lib st"
  have hex': "hexdigest (lib\<lparr>days_old := d\<rparr>)"
    using hex by (simp add: hexdigest_def)
  have "json_loads (lib\<lparr>days_old := d\<rparr>) = json_loads lib"
    "json_dumps (lib\<lparr>days_old := d\<rparr>) = json_dumps lib"
    by simp_all
  then show "\<forall>out. fst (main_search (lib\<lparr>days_old := d\<rparr>) net ord m0 m1 st q p) = Inr out \<longrightarrow>
      all_regular out"
    using main_search_inv [OF reachable_store_inv [OF codec r] codec] hex' by blast
  show "(\<exists>c. store st = InMemory c) \<longrightarrow>
      (\<exists>out. fst (main_search (lib\<lparr>days_old := d\<rparr>) net ord m0 m1 st q p) = Inr out)"
    using main_search_in_memory by blast
qed

theorem search_returns_only_regular_witness:
  "(\<exists>out. fst (main_search sample_lib (net_page page_g) SubmissionOrder (up_at 10) (up_at 11)
              fresh_main ''apple'' 1) = Inr out \<and> all_regular out) \<and>
   (\<exists>out. fst (main_search sample_lib (net_page page_g) SubmissionOrder (up_at 10) (up_at 11)
              with_redis ''apple'' 1) = Inr out \<and> all_regular out)"
proof
  have lib: "sample_lib\<lparr>days_old := days_old sample_lib\<rparr> = sample_lib"
    by simp
  have mem: "\<exists>c. store fresh_main = InMemory c"
    by (simp add: fresh_main_def new_ImprovedSearch_def)
  have "reachable sample_lib fresh_main"
    unfolding fresh_main_def by (rule reachable.fresh)
  from search_returns_only_regular [OF sample_hexdigest sample_regular_codec this,
      of "days_old sample_lib" "net_page page_g" SubmissionOrder "up_at 10" "up_at 11" "''apple''" 1]
  show "\<exists>out. fst (main_search sample_lib (net_page page_g) SubmissionOrder (up_at 10) (up_at 11)
              fresh_main ''apple'' 1) = Inr out \<and> all_regular out"
    unfolding lib using mem by blast
  have "reachable sample_lib with_redis"
    unfolding with_redis_def by (rule reachable.fresh)
  from search_returns_only_regular [OF sample_hexdigest sample_regular_codec this,
      of "days_old sample_lib" "net_page page_g" SubmissionOrder "up_at 10" "up_at 11" "''apple''" 1]
  have reg: "\<forall>out. fst (main_search sample_lib (net_page page_g) SubmissionOrder (up_at 10) (up_at 11)
              with_redis ''apple'' 1) = Inr out \<longrightarrow> all_regular out"
    unfolding lib by (rule conjunct1)
  have "\<exists>out s. main_search_miss sample_lib (net_page page_g) SubmissionOrder (up_at 11)
      with_redis (main_get_cache_key sample_lib ''apple'' 1) ''apple'' 1 = (Inr out, s)"
    using main_search_miss_cases [of sample_lib "net_page page_g" SubmissionOrder "up_at 11"
        with_redis "main_get_cache_key sample_lib ''apple'' 1" "''apple''" 1]
    by (auto simp: main_save_to_cache_def redis_setex_def with_redis_def new_ImprovedSearch_def
        up_at_def)
  then have "\<exists>out. fst (main_search sample_lib (net_page page_g) SubmissionOrder (up_at 10) (up_at 11)
              with_redis ''apple'' 1) = Inr out"
    by (auto simp: main_search_def main_get_from_cache_def redis_get_def with_redis_def
        new_ImprovedSearch_def up_at_def)
  with reg show "\<exists>out. fst (main_search sample_lib (net_page page_g) SubmissionOrder (up_at 10) (up_at 11)
              with_redis ''apple'' 1) = Inr out \<and> all_regular out"
    by blast
qed

end
